theory Spec2Isabelle
  imports Complex_Main "HOL-Library.AList" "HOL-Library.Log_Nat"
begin

section \<open>JavaScript values and records of the aircraft snapshot\<close>

text \<open>
  The hooks of the front end (\<^verbatim>\<open>useAircraftData\<close>, \<^verbatim>\<open>useAircraftTracks\<close>,
  \<^verbatim>\<open>useFilteredAircraft\<close>) and \<^verbatim>\<open>getAircraftColor\<close> of the map component are
  embedded as HOL functions. A JavaScript number is modelled as the real it denotes; the
  subtraction of coordinates in \<^verbatim>\<open>updateTracks\<close> and the arithmetic of
  \<^verbatim>\<open>getAircraftColor\<close> round their results as IEEE 754 double precision does (see
  \<open>double\<close> below). The arithmetic on clock readings in the clean-up and in the filter
  is kept exact: clock readings are integers, and for a threshold of whole minutes the
  comparisons come out as they do on doubles. The clock \<^verbatim>\<open>Date.now()\<close> is an integer number of milliseconds that the
  caller passes in, and every \<^verbatim>\<open>TypeError\<close> the code can raise is a value.

  A field of a record received from the backend holds a JSON value or is missing; JSON
  has no \<^verbatim>\<open>NaN\<close> and no infinite number.
\<close>

datatype js_value = JUndefined | JNull | JBool bool | JNumber real | JString string

fun typeof :: "js_value \<Rightarrow> string" where
  "typeof JUndefined = ''undefined''"
| "typeof JNull = ''object''"
| "typeof (JBool b) = ''boolean''"
| "typeof (JNumber x) = ''number''"
| "typeof (JString s) = ''string''"

text \<open>
  An aircraft object. The identifier \<^verbatim>\<open>icao24\<close> is a string when present, and
  \<^verbatim>\<open>lastseen\<close> a number when present (\<open>None\<close> is a missing or null field); the
  coordinates are arbitrary values, since the code tests their type. An identifier is the
  24-bit address of the aircraft in hexadecimal digits, so it is never the name of a
  property that every object inherits (\<^verbatim>\<open>constructor\<close>, \<^verbatim>\<open>toString\<close>, ...).
\<close>

record aircraft_rec =
  icao24 :: "string option"
  latitude :: js_value
  longitude :: js_value
  lastseen :: "real option"

text \<open>Truthiness of \<^verbatim>\<open>ac.icao24\<close>: a missing field and the empty string are falsy.\<close>

fun truthy_string :: "string option \<Rightarrow> bool" where
  "truthy_string None = False"
| "truthy_string (Some s) = (s \<noteq> [])"

text \<open>Truthiness of \<^verbatim>\<open>lastseen\<close>: a missing field and the number 0 are falsy.\<close>

fun truthy_number :: "real option \<Rightarrow> bool" where
  "truthy_number None = False"
| "truthy_number (Some x) = (x \<noteq> 0)"

datatype js_error = TypeError

text \<open>\<^verbatim>\<open>xs.forEach(f)\<close> for a body that updates a state and may throw.\<close>

fun forEach :: "('a \<Rightarrow> 's \<Rightarrow> js_error + 's) \<Rightarrow> 'a list \<Rightarrow> 's \<Rightarrow> js_error + 's" where
  "forEach f [] s = Inr s"
| "forEach f (x # xs) s = (case f x s of Inl e \<Rightarrow> Inl e | Inr s' \<Rightarrow> forEach f xs s')"

section \<open>Double-precision arithmetic\<close>

text \<open>
  The result of \<^verbatim>\<open>+\<close>, \<^verbatim>\<open>-\<close>, \<^verbatim>\<open>*\<close> and \<^verbatim>\<open>/\<close> on JavaScript numbers, and
  the value of a decimal literal, is the double nearest to the exact result, a tie going to
  the double with an even significand. \<open>exponent x\<close> is the integer \<open>e\<close> with
  \<open>2 ^ e \<le> x < 2 ^ (e + 1)\<close> for positive \<open>x\<close>; a double has 53 significant bits,
  and exponents below -1022 share the spacing of -1022 (subnormal numbers). An overflow to
  \<^verbatim>\<open>Infinity\<close> is not modelled. \<^verbatim>\<open>Math.abs\<close>, \<^verbatim>\<open>Math.min\<close>, \<^verbatim>\<open>Math.round\<close>
  and the comparisons are exact on doubles.
\<close>

definition exponent :: "real \<Rightarrow> int" where
  "exponent x = (if 1 \<le> x then bitlen \<lfloor>x\<rfloor> - 1 else - bitlen (\<lceil>1 / x\<rceil> - 1))"

definition round_even :: "real \<Rightarrow> int" where
  "round_even y =
     (let f = \<lfloor>y\<rfloor>; d = y - of_int f
      in if d < 1 / 2 then f
         else if 1 / 2 < d then f + 1
         else if even f then f else f + 1)"

definition double :: "real \<Rightarrow> real" where
  "double x =
     (if x = 0 then 0
      else
        (let e = max (exponent \<bar>x\<bar>) (- 1022);
             ulp = 2 powi (e - 52)
         in of_int (round_even (x / ulp)) * ulp))"

section \<open>Constants\<close>

definition MAX_TRACK_POINTS :: nat where
  "MAX_TRACK_POINTS = 500"

definition TRACK_MIN_DISTANCE_CHANGE :: real where
  "TRACK_MIN_DISTANCE_CHANGE = double 0.001"

section \<open>Track history: \<^verbatim>\<open>useAircraftTracks\<close>\<close>

text \<open>
  A track point is the array \<^verbatim>\<open>[lon, lat, timestamp]\<close>. The object \<^verbatim>\<open>tracks\<close> is
  an association list from identifiers to arrays of points: \<open>map_of\<close> reads a property,
  \<open>AList.update\<close> assigns one, \<open>AList.delete\<close> is \<^verbatim>\<open>delete\<close>, and the keys are
  \<open>map fst\<close>.
\<close>

type_synonym track_point = "real \<times> real \<times> int"

type_synonym tracks = "(string \<times> track_point list) list"

text \<open>\<^verbatim>\<open>xs.slice(-n)\<close>: the last \<open>n\<close> elements, all of them when there are fewer.\<close>

definition slice_last :: "nat \<Rightarrow> 'a list \<Rightarrow> 'a list" where
  "slice_last n xs = drop (length xs - n) xs"

text \<open>
  The body of \<^verbatim>\<open>aircraftData.forEach\<close> in \<^verbatim>\<open>updateTracks\<close>. Reading the last
  element of an empty array gives \<^verbatim>\<open>undefined\<close>, whose index 0 is a TypeError.
\<close>

definition track_record :: "int \<Rightarrow> aircraft_rec \<Rightarrow> tracks \<Rightarrow> js_error + tracks" where
  "track_record timestamp ac newTracks =
     (if typeof (latitude ac) = ''number'' \<and> typeof (longitude ac) = ''number''
         \<and> truthy_string (icao24 ac)
      then
        (case (longitude ac, latitude ac, icao24 ac) of
           (JNumber lon, JNumber lat, Some k) \<Rightarrow>
             (let position = (lon, lat, timestamp) in
              case map_of newTracks k of
                None \<Rightarrow> Inr (AList.update k [position] newTracks)
              | Some buf \<Rightarrow>
                  (if buf = [] then Inl TypeError
                   else
                     (let (lastLon, lastLat, lastTime) = last buf;
                          lonDiff = \<bar>double (lastLon - lon)\<bar>;
                          latDiff = \<bar>double (lastLat - lat)\<bar>
                      in if lonDiff > TRACK_MIN_DISTANCE_CHANGE \<or> latDiff > TRACK_MIN_DISTANCE_CHANGE
                         then
                           (let appended = buf @ [position]
                            in if length appended > MAX_TRACK_POINTS
                               then Inr (AList.update k (slice_last MAX_TRACK_POINTS appended) newTracks)
                               else Inr (AList.update k appended newTracks))
                         else Inr newTracks)))
         | _ \<Rightarrow> Inr newTracks)
      else Inr newTracks)"

text \<open>
  The body of \<^verbatim>\<open>Object.keys(newTracks).forEach\<close>: the clean-up of one key.
  \<^verbatim>\<open>aircraftData.find\<close> is \<open>List.find\<close>.
\<close>

definition cleanup_key :: "aircraft_rec list \<Rightarrow> int \<Rightarrow> real \<Rightarrow> string \<Rightarrow> tracks \<Rightarrow> js_error + tracks" where
  "cleanup_key aircraftData currentTime maxAgeSeconds k newTracks =
     (case List.find (\<lambda>ac. icao24 ac = Some k) aircraftData of
        Some aircraft \<Rightarrow> Inr newTracks
      | None \<Rightarrow>
          (case map_of newTracks k of
             None \<Rightarrow> Inl TypeError
           | Some buf \<Rightarrow>
               (if buf = [] then Inl TypeError
                else
                  (let (lastLon, lastLat, lastTime) = last buf;
                       ageSeconds = real_of_int currentTime - real_of_int lastTime / 1000
                   in if ageSeconds > maxAgeSeconds
                      then Inr (AList.delete k newTracks)
                      else Inr newTracks))))"

text \<open>
  The updater passed to \<^verbatim>\<open>setTracks\<close>. \<open>timestamp\<close> is the first reading of
  \<^verbatim>\<open>Date.now()\<close> and \<open>dateNow\<close> the second one; \<open>div\<close> on integers is
  \<^verbatim>\<open>Math.floor\<close> of the quotient.
\<close>

definition updateTracks :: "real \<Rightarrow> int \<Rightarrow> int \<Rightarrow> aircraft_rec list \<Rightarrow> tracks \<Rightarrow> js_error + tracks" where
  "updateTracks maxAgeMinutes timestamp dateNow aircraftData prevTracks =
     (case forEach (track_record timestamp) aircraftData prevTracks of
        Inl e \<Rightarrow> Inl e
      | Inr newTracks \<Rightarrow>
          (let currentTime = dateNow div 1000;
               maxAgeSeconds = maxAgeMinutes * 60 * 2
           in forEach (cleanup_key aircraftData currentTime maxAgeSeconds)
                (map fst newTracks) newTracks))"

text \<open>The effect of the hook, run when the \<^verbatim>\<open>aircraft\<close> array changes.\<close>

definition useAircraftTracks :: "real \<Rightarrow> int \<Rightarrow> int \<Rightarrow> aircraft_rec list \<Rightarrow> tracks \<Rightarrow> js_error + tracks" where
  "useAircraftTracks maxAgeMinutes timestamp dateNow aircraftData prevTracks =
     (if length aircraftData > 0
      then updateTracks maxAgeMinutes timestamp dateNow aircraftData prevTracks
      else Inr prevTracks)"

text \<open>
  The hook over time: one entry per change of the \<^verbatim>\<open>aircraft\<close> array, with the
  threshold and the two clock readings of that run.
\<close>

type_synonym tick = "real \<times> int \<times> int \<times> aircraft_rec list"

fun run_ticks :: "tick list \<Rightarrow> tracks \<Rightarrow> js_error + tracks" where
  "run_ticks [] prevTracks = Inr prevTracks"
| "run_ticks ((maxAgeMinutes, timestamp, dateNow, aircraftData) # rest) prevTracks =
     (case useAircraftTracks maxAgeMinutes timestamp dateNow aircraftData prevTracks of
        Inl e \<Rightarrow> Inl e
      | Inr newTracks \<Rightarrow> run_ticks rest newTracks)"

section \<open>Recency filter: \<^verbatim>\<open>useFilteredAircraft\<close>\<close>

definition useFilteredAircraft :: "int \<Rightarrow> aircraft_rec list \<Rightarrow> real \<Rightarrow> aircraft_rec list" where
  "useFilteredAircraft dateNow aircraftData maxAgeMinutes =
     (let currentTime = dateNow div 1000
      in filter (\<lambda>ac.
           if \<not> truthy_number (lastseen ac) then True
           else
             (let ageInSeconds = real_of_int currentTime - the (lastseen ac);
                  ageInMinutes = ageInSeconds / 60
              in ageInMinutes \<le> maxAgeMinutes)) aircraftData)"

section \<open>Marker colour: \<^verbatim>\<open>getAircraftColor\<close>\<close>






section \<open>Polling: \<^verbatim>\<open>useAircraftData\<close> and its use in \<^verbatim>\<open>App\<close>\<close>

text \<open>The four state variables of \<^verbatim>\<open>useAircraftData\<close>.\<close>

record data_state =
  aircraft :: "aircraft_rec list"
  lastUpdate :: "int option"
  error :: "string option"
  loading :: bool

definition initial_data_state :: data_state where
  "initial_data_state = \<lparr>aircraft = [], lastUpdate = None, error = None, loading = True\<rparr>"

text \<open>
  \<^verbatim>\<open>fetchAircraft\<close>: the outcome of \<^verbatim>\<open>await fetchAllAircraft()\<close> is the list
  fetched (\<open>Inr\<close>) or the message of the error thrown (\<open>Inl\<close>); \<open>date\<close> is
  \<^verbatim>\<open>new Date()\<close>. The result is the new state and the value returned
  (\<open>None\<close> is \<^verbatim>\<open>null\<close>).
\<close>

definition fetchAircraft ::
  "string + aircraft_rec list \<Rightarrow> int \<Rightarrow> data_state \<Rightarrow> data_state \<times> aircraft_rec list option" where
  "fetchAircraft outcome date st =
     (case outcome of
        Inr fetchedData \<Rightarrow>
          (st\<lparr>aircraft := fetchedData, lastUpdate := Some date, error := None, loading := False\<rparr>,
           Some fetchedData)
      | Inl message \<Rightarrow>
          (st\<lparr>error := Some message, loading := False\<rparr>, None))"

text \<open>
  \<^verbatim>\<open>App\<close> holds the state of \<^verbatim>\<open>useAircraftData\<close> and the tracks of
  \<^verbatim>\<open>useAircraftTracks\<close>. One firing of the interval timer calls
  \<^verbatim>\<open>fetchAircraft\<close>; the effect of \<^verbatim>\<open>useAircraftTracks\<close> depends on
  \<^verbatim>\<open>[aircraft]\<close>, so it runs when \<^verbatim>\<open>setAircraft\<close> has stored a new array, that
  is after a successful fetch only.
\<close>

record app_state =
  fetched :: data_state
  tracks :: tracks

type_synonym firing = "(string + aircraft_rec list) \<times> real \<times> int \<times> int \<times> int"

definition App_firing :: "firing \<Rightarrow> app_state \<Rightarrow> js_error + app_state" where
  "App_firing f st =
     (case f of (outcome, maxAgeMinutes, date, timestamp, dateNow) \<Rightarrow>
        (case fetchAircraft outcome date (fetched st) of
           (fetched', None) \<Rightarrow> Inr (st\<lparr>fetched := fetched'\<rparr>)
         | (fetched', Some fetchedData) \<Rightarrow>
             (case useAircraftTracks maxAgeMinutes timestamp dateNow (aircraft fetched') (tracks st) of
                Inl e \<Rightarrow> Inl e
              | Inr newTracks \<Rightarrow> Inr \<lparr>fetched = fetched', tracks = newTracks\<rparr>)))"

text \<open>\<^verbatim>\<open>setInterval(fetchAircraft, ...)\<close>: the timer fires again whatever the last firing did.\<close>

definition App_polling :: "firing list \<Rightarrow> app_state \<Rightarrow> js_error + app_state" where
  "App_polling firings st = forEach App_firing firings st"

section \<open>Notions used in the statements about tracks\<close>

text \<open>
  The track maps that the hook can hold: an object has each key once, and the hook stores
  no empty array.
\<close>

definition wf_tracks :: "tracks \<Rightarrow> bool" where
  "wf_tracks trs \<longleftrightarrow> distinct (map fst trs) \<and> list_all (\<lambda>(k, buf). buf \<noteq> []) trs"

text \<open>The test of \<^verbatim>\<open>updateTracks\<close> for a position that differs enough from the last point.\<close>

definition moved :: "track_point \<Rightarrow> real \<Rightarrow> real \<Rightarrow> bool" where
  "moved lastPos lon lat \<longleftrightarrow>
     \<bar>double (fst lastPos - lon)\<bar> > TRACK_MIN_DISTANCE_CHANGE
     \<or> \<bar>double (fst (snd lastPos) - lat)\<bar> > TRACK_MIN_DISTANCE_CHANGE"

text \<open>
  The array of identifier \<open>k\<close> after \<^verbatim>\<open>updateTracks\<close> has handled one aircraft,
  as a function of the array before (\<open>None\<close> when \<open>k\<close> has none).
\<close>

definition buffer_after_record :: "int \<Rightarrow> string \<Rightarrow> aircraft_rec \<Rightarrow> track_point list option \<Rightarrow> track_point list option" where
  "buffer_after_record timestamp k ac bo =
     (case (longitude ac, latitude ac) of
        (JNumber lon, JNumber lat) \<Rightarrow>
          (if icao24 ac = Some k \<and> k \<noteq> [] then
             (case bo of
                None \<Rightarrow> Some [(lon, lat, timestamp)]
              | Some buf \<Rightarrow>
                  if moved (last buf) lon lat
                  then Some (slice_last MAX_TRACK_POINTS (buf @ [(lon, lat, timestamp)]))
                  else Some buf)
           else bo)
      | _ \<Rightarrow> bo)"

text \<open>The age test of the clean-up on the last point of an array.\<close>

definition stale :: "int \<Rightarrow> real \<Rightarrow> track_point list \<Rightarrow> bool" where
  "stale dateNow maxAgeMinutes buf \<longleftrightarrow>
     real_of_int (dateNow div 1000) - real_of_int (snd (snd (last buf))) / 1000 > maxAgeMinutes * 60 * 2"

text \<open>The array of identifier \<open>k\<close> after the clean-up, as a function of the array before.\<close>

definition buffer_after_cleanup :: "int \<Rightarrow> real \<Rightarrow> aircraft_rec list \<Rightarrow> string \<Rightarrow> track_point list option \<Rightarrow> track_point list option" where
  "buffer_after_cleanup dateNow maxAgeMinutes acs k bo =
     (case bo of
        None \<Rightarrow> None
      | Some buf \<Rightarrow>
          if List.find (\<lambda>ac. icao24 ac = Some k) acs = None \<and> stale dateNow maxAgeMinutes buf
          then None else Some buf)"

text \<open>
  The array of identifier \<open>k\<close> after one run of the hook's effect, as a function of the
  array before.
\<close>

definition buffer_after_tick :: "string \<Rightarrow> tick \<Rightarrow> track_point list option \<Rightarrow> track_point list option" where
  "buffer_after_tick k t bo =
     (case t of (maxAgeMinutes, timestamp, dateNow, acs) \<Rightarrow>
        if acs = [] then bo
        else buffer_after_cleanup dateNow maxAgeMinutes acs k
               (fold (buffer_after_record timestamp k) acs bo))"

text \<open>An array within the cap.\<close>

definition bounded :: "track_point list option \<Rightarrow> bool" where
  "bounded bo \<longleftrightarrow> (case bo of None \<Rightarrow> True | Some buf \<Rightarrow> length buf \<le> MAX_TRACK_POINTS)"

text \<open>
  The point that a run of the effect records for identifier \<open>k\<close> when the snapshot has
  exactly one aircraft with that identifier, with numbers as coordinates.
\<close>

definition reported :: "string \<Rightarrow> tick \<Rightarrow> track_point \<Rightarrow> bool" where
  "reported k t p \<longleftrightarrow>
     (case t of (maxAgeMinutes, timestamp, dateNow, acs) \<Rightarrow>
        case p of (lon, lat, time) \<Rightarrow>
          time = timestamp
          \<and> (case filter (\<lambda>a. icao24 a = Some k) acs of
                 [ac] \<Rightarrow> longitude ac = JNumber lon \<and> latitude ac = JNumber lat
               | _ \<Rightarrow> False))"

text \<open>
  An array in the order of capture, with no capture time after \<open>T\<close>.
\<close>

definition chronological :: "int \<Rightarrow> track_point list option \<Rightarrow> bool" where
  "chronological T bo \<longleftrightarrow>
     (case bo of
        None \<Rightarrow> True
      | Some buf \<Rightarrow> sorted (map (snd \<circ> snd) buf) \<and> list_all (\<lambda>p. snd (snd p) \<le> T) buf)"

text \<open>
  The array \<open>bo'\<close> comes from the array \<open>bo\<close> by appending points captured at
  \<open>timestamp\<close> and dropping points from the front.
\<close>

definition grown :: "int \<Rightarrow> track_point list option \<Rightarrow> track_point list option \<Rightarrow> bool" where
  "grown timestamp bo bo' \<longleftrightarrow>
     (bo' = None \<longrightarrow> bo = None)
     \<and> (\<forall>new. bo' = Some new \<longrightarrow>
          (\<exists>n pts. n \<le> length ((case bo of None \<Rightarrow> [] | Some buf \<Rightarrow> buf) @ pts)
             \<and> new = drop n ((case bo of None \<Rightarrow> [] | Some buf \<Rightarrow> buf) @ pts)
             \<and> (\<forall>p \<in> set pts. snd (snd p) = timestamp)))"

section \<open>Properties of the rounding to double precision\<close>

lemma bitlen_numeral_eval:
  "bitlen (numeral n) = bitlen (numeral n div 2) + 1"
  by (subst compute_bitlen) simp

lemma bitlen_one: "bitlen 1 = 1"
  by (subst compute_bitlen) simp

lemmas double_eval = double_def exponent_def bitlen_numeral_eval bitlen_one round_even_def Let_def

lemma exponent_bounds:
  assumes "0 < x"
  shows "2 powi (exponent x) \<le> x" and "x < 2 powi (exponent x + 1)"
proof -
  have "2 powi (exponent x) \<le> x \<and> x < 2 powi (exponent x + 1)"
  proof (cases "1 \<le> x")
    case True
    then have pos: "0 < \<lfloor>x\<rfloor>" by linarith
    from bitlen_bounds[OF pos]
    have lo: "2 ^ nat (bitlen \<lfloor>x\<rfloor> - 1) \<le> \<lfloor>x\<rfloor>" and hi: "\<lfloor>x\<rfloor> < 2 ^ nat (bitlen \<lfloor>x\<rfloor>)"
      by simp_all
    have b: "1 \<le> bitlen \<lfloor>x\<rfloor>"
      using pos bitlen_eq_zero_iff[of "\<lfloor>x\<rfloor>"] bitlen_nonneg[of "\<lfloor>x\<rfloor>"] by linarith
    have e: "exponent x = bitlen \<lfloor>x\<rfloor> - 1" using True by (simp add: exponent_def)
    have "real_of_int (2 ^ nat (bitlen \<lfloor>x\<rfloor> - 1)) \<le> x"
      using lo by (simp only: le_floor_iff)
    then have 1: "2 powi (exponent x) \<le> x"
      using b by (simp add: e power_int_nonneg_exp)
    have "x < real_of_int (2 ^ nat (bitlen \<lfloor>x\<rfloor>))"
      using hi by (simp only: floor_less_iff)
    then have 2: "x < 2 powi (exponent x + 1)"
      using b by (simp add: e power_int_nonneg_exp)
    show ?thesis using 1 2 by simp
  next
    case False
    then have x1: "x < 1" by simp
    let ?N = "\<lceil>1 / x\<rceil>"
    have y: "1 < 1 / x" using assms x1 by simp
    then have N2: "2 \<le> ?N" by linarith
    then have pos: "0 < ?N - 1" by simp
    let ?c = "bitlen (?N - 1)"
    from bitlen_bounds[OF pos]
    have lo: "2 ^ nat (?c - 1) \<le> ?N - 1" and hi: "?N - 1 < 2 ^ nat ?c"
      by simp_all
    have c1: "1 \<le> ?c"
      using pos bitlen_eq_zero_iff[of "?N - 1"] bitlen_nonneg[of "?N - 1"] by linarith
    have e: "exponent x = - ?c" using False by (simp add: exponent_def)
    have "?N \<le> 2 ^ nat ?c" using hi by simp
    then have "1 / x \<le> real_of_int (2 ^ nat ?c)" by (simp only: ceiling_le_iff)
    then have "1 / x \<le> 2 ^ nat ?c" by simp
    then have "1 \<le> 2 ^ nat ?c * x" using assms by (simp add: field_simps)
    then have 1: "2 powi (exponent x) \<le> x"
      using c1 by (simp add: e power_int_minus power_int_nonneg_exp field_simps)
    have "(2::int) ^ nat (?c - 1) < ?N" using lo by simp
    then have "real_of_int (2 ^ nat (?c - 1)) < 1 / x" by (simp only: less_ceiling_iff)
    then have "x < 1 / 2 ^ nat (?c - 1)" using assms by (simp add: field_simps)
    moreover have "(2::real) powi (exponent x + 1) = 1 / 2 ^ nat (?c - 1)"
    proof -
      have "(2::real) powi (exponent x + 1) = 2 powi (- (?c - 1))" by (simp add: e)
      also have "\<dots> = 1 / 2 powi (?c - 1)" by (rule power_int_minus_divide)
      also have "\<dots> = 1 / 2 ^ nat (?c - 1)" using c1 by (simp add: power_int_nonneg_exp)
      finally show ?thesis .
    qed
    ultimately have 2: "x < 2 powi (exponent x + 1)"
      by simp
    show ?thesis using 1 2 by simp
  qed
  then show "2 powi (exponent x) \<le> x" and "x < 2 powi (exponent x + 1)" by simp_all
qed

lemma round_even_ge: "of_int n \<le> y \<Longrightarrow> n \<le> round_even y"
proof -
  assume "of_int n \<le> y"
  then have "n \<le> \<lfloor>y\<rfloor>" by (simp add: le_floor_iff)
  then show ?thesis by (simp add: round_even_def Let_def)
qed

lemma round_even_le: "y \<le> of_int n \<Longrightarrow> round_even y \<le> n"
proof (cases "y = of_int n")
  case True
  then show ?thesis by (simp add: round_even_def)
next
  case False
  assume "y \<le> of_int n"
  with False have "y < of_int n" by simp
  then have "\<lfloor>y\<rfloor> < n" by (simp add: floor_less_iff)
  then show ?thesis by (simp add: round_even_def Let_def)
qed


lemma pow2_less_imp_less:
  assumes "(2::real) powi a < 2 powi b"
  shows "a < b"
proof (rule ccontr)
  assume "\<not> a < b"
  then have "b \<le> a" by simp
  then have "(2::real) powi b \<le> 2 powi a" by (intro power_int_increasing) simp_all
  then show False using assms by simp
qed

lemma double_ge_one:
  assumes "1 \<le> x"
  shows "1 \<le> double x"
proof -
  have pos: "0 < x" and ne: "x \<noteq> 0" and ab: "\<bar>x\<bar> = x" using assms by simp_all
  let ?e = "exponent x"
  have "(2::real) powi 0 \<le> x" using assms by simp
  also have "x < 2 powi (?e + 1)" using exponent_bounds(2)[OF pos] .
  finally have "0 < ?e + 1" by (rule pow2_less_imp_less)
  then have e0: "0 \<le> ?e" by simp
  then have m: "max ?e (- 1022) = ?e" by simp
  let ?u = "(2::real) powi (?e - 52)"
  have u: "0 < ?u" by simp
  have "2 powi ?e = (2::real) powi 52 * ?u"
    using power_int_add[of "2::real" 52 "?e - 52"] by simp
  then have "of_int (2 ^ 52) * ?u \<le> x"
    using exponent_bounds(1)[OF pos] by simp
  then have "of_int (2 ^ 52) \<le> x / ?u" using u by (simp add: pos_le_divide_eq)
  then have "2 ^ 52 \<le> round_even (x / ?u)" by (rule round_even_ge)
  then have "real_of_int (2 ^ 52) \<le> of_int (round_even (x / ?u))" by linarith
  then have A: "real_of_int (2 ^ 52) * ?u \<le> of_int (round_even (x / ?u)) * ?u"
    using u by (simp only: mult_le_cancel_right_pos)
  have "(1::real) \<le> 2 powi ?e" using e0 by simp
  then have B: "1 \<le> real_of_int (2 ^ 52) * ?u"
    using \<open>2 powi ?e = (2::real) powi 52 * ?u\<close> by simp
  have "double x = of_int (round_even (x / ?u)) * ?u"
    using ne by (simp add: double_def Let_def ab m)
  then show ?thesis using order_trans[OF B A] by simp
qed


lemma floor_minus_cases:
  "\<lfloor>- y\<rfloor> = (if y = of_int \<lfloor>y\<rfloor> then - \<lfloor>y\<rfloor> else - \<lfloor>y\<rfloor> - 1)" for y :: real
proof (cases "y = of_int \<lfloor>y\<rfloor>")
  case True
  then have "- y = of_int (- \<lfloor>y\<rfloor>)" by simp
  then have "\<lfloor>- y\<rfloor> = - \<lfloor>y\<rfloor>" by (metis floor_of_int)
  then show ?thesis using True by auto
next
  case False
  have lo: "of_int \<lfloor>y\<rfloor> < y" using False of_int_floor_le[of y] by linarith
  have hi: "y < of_int \<lfloor>y\<rfloor> + 1" by linarith
  have "\<lfloor>- y\<rfloor> = - \<lfloor>y\<rfloor> - 1"
  proof (rule floor_unique)
    show "of_int (- \<lfloor>y\<rfloor> - 1) \<le> - y" using hi by simp linarith
    show "- y < of_int (- \<lfloor>y\<rfloor> - 1) + 1" using lo by simp
  qed
  then show ?thesis using False by simp
qed

lemma round_even_minus: "round_even (- y) = - round_even y"
proof (cases "y = of_int \<lfloor>y\<rfloor>")
  case True
  then have "round_even y = \<lfloor>y\<rfloor>" by (simp add: round_even_def Let_def)
  moreover have "round_even (- y) = - \<lfloor>y\<rfloor>"
    using True by (simp add: round_even_def Let_def floor_minus_cases del: floor_minus)
  ultimately show ?thesis by simp
next
  case False
  then have f: "\<lfloor>- y\<rfloor> = - \<lfloor>y\<rfloor> - 1" by (simp add: floor_minus_cases del: floor_minus)
  have "of_int \<lfloor>y\<rfloor> \<le> y" and "y < of_int \<lfloor>y\<rfloor> + 1" by linarith+
  then show ?thesis
    unfolding round_even_def Let_def f by (auto simp: field_simps)
qed

lemma double_minus: "double (- x) = - double x"
  by (simp add: double_def Let_def round_even_minus)

lemma double_le_minus_one:
  assumes "x \<le> - 1"
  shows "double x \<le> - 1"
proof -
  have "1 \<le> double (- x)" using assms by (intro double_ge_one) simp
  then show ?thesis by (simp add: double_minus)
qed



lemma TRACK_MIN_DISTANCE_CHANGE_value:
  "TRACK_MIN_DISTANCE_CHANGE = 1152921504606847 / 2 ^ 60"
  by (simp add: TRACK_MIN_DISTANCE_CHANGE_def double_eval)


section \<open>The recency filter\<close>





text \<open>
  Claim C9: a record whose \<^verbatim>\<open>lastseen\<close> field is present and equal to 0 passes the
  recency filter whatever the clock and the threshold are: the test \<^verbatim>\<open>!ac.lastseen\<close>
  treats 0 as it treats a missing field.
\<close>

theorem C9_zero_lastseen_kept:
  assumes "lastseen ac = Some 0" and "ac \<in> set acs"
  shows "ac \<in> set (useFilteredAircraft dateNow acs maxAgeMinutes)"
  using assms by (simp add: useFilteredAircraft_def)

theorem C9_zero_lastseen_kept_witness:
  "lastseen \<lparr>icao24 = Some ''A'', latitude = JNumber 10, longitude = JNumber 20, lastseen = Some 0\<rparr> = Some 0
   \<and> \<lparr>icao24 = Some ''A'', latitude = JNumber 10, longitude = JNumber 20, lastseen = Some 0\<rparr>
       \<in> set (useFilteredAircraft 1800000
           [\<lparr>icao24 = Some ''A'', latitude = JNumber 10, longitude = JNumber 20, lastseen = Some 0\<rparr>] 5)"
  using C9_zero_lastseen_kept
    [of "\<lparr>icao24 = Some ''A'', latitude = JNumber 10, longitude = JNumber 20, lastseen = Some 0\<rparr>"
      "[\<lparr>icao24 = Some ''A'', latitude = JNumber 10, longitude = JNumber 20, lastseen = Some 0\<rparr>]" 1800000 5]
  by simp

section \<open>The marker colour\<close>














section \<open>Polling and fetch failures\<close>

text \<open>
  Claim C7: when the fetch fails with a message, the firing of the timer ends normally in
  a state that holds the same aircraft list and the same time of last update as before,
  the message as error, and the same tracks; the schedule goes on with the next firing.
  The time of last update changes on success only.
\<close>

theorem C7_fetch_failure_keeps_state:
  "(let st' = st\<lparr>fetched := (fetched st)\<lparr>error := Some message, loading := False\<rparr>\<rparr>
    in App_firing (Inl message, maxAgeMinutes, date, timestamp, dateNow) st = Inr st'
       \<and> aircraft (fetched st') = aircraft (fetched st)
       \<and> lastUpdate (fetched st') = lastUpdate (fetched st)
       \<and> error (fetched st') = Some message
       \<and> tracks st' = tracks st
       \<and> App_polling ((Inl message, maxAgeMinutes, date, timestamp, dateNow) # rest) st
           = App_polling rest st')
   \<and> lastUpdate (fst (fetchAircraft outcome date d))
       = (case outcome of Inl msg \<Rightarrow> lastUpdate d | Inr fetchedData \<Rightarrow> Some date)"
  by (simp add: App_firing_def App_polling_def fetchAircraft_def Let_def split: sum.splits)

section \<open>One pass of \<^verbatim>\<open>updateTracks\<close>, identifier by identifier\<close>

lemma wf_tracks_Nil: "wf_tracks []"
  by (simp add: wf_tracks_def)

lemma list_all_update:
  "list_all P al \<Longrightarrow> P (k, v) \<Longrightarrow> list_all P (AList.update k v al)"
  by (induction al) auto

lemma wf_tracks_update: "wf_tracks trs \<Longrightarrow> buf \<noteq> [] \<Longrightarrow> wf_tracks (AList.update k buf trs)"
  by (simp add: wf_tracks_def distinct_update list_all_update)

lemma wf_tracks_delete: "wf_tracks trs \<Longrightarrow> wf_tracks (AList.delete k trs)"
proof -
  assume wf: "wf_tracks trs"
  then have "distinct (map fst (AList.delete k trs))"
    by (simp add: wf_tracks_def distinct_delete)
  moreover have "list_all (\<lambda>(k, buf). buf \<noteq> []) (AList.delete k trs)"
    using wf by (auto simp: wf_tracks_def list_all_iff AList.delete_eq)
  ultimately show ?thesis by (simp add: wf_tracks_def)
qed

lemma wf_tracks_nonempty: "wf_tracks trs \<Longrightarrow> map_of trs k = Some buf \<Longrightarrow> buf \<noteq> []"
  by (auto simp: wf_tracks_def list_all_iff dest!: map_of_SomeD)

lemma slice_last_nonempty: "xs \<noteq> [] \<Longrightarrow> 0 < n \<Longrightarrow> slice_last n xs \<noteq> []"
  by (cases xs) (auto simp: slice_last_def)

lemma slice_last_id: "length xs \<le> n \<Longrightarrow> slice_last n xs = xs"
  by (simp add: slice_last_def)

lemma typeof_number: "typeof v = ''number'' \<longleftrightarrow> (\<exists>x. v = JNumber x)"
  by (cases v) auto

lemma track_record_view:
  assumes "wf_tracks trs"
  shows "\<exists>trs'. track_record timestamp ac trs = Inr trs' \<and> wf_tracks trs'
           \<and> (\<forall>k. map_of trs' k = buffer_after_record timestamp k ac (map_of trs k))"
proof (cases "typeof (latitude ac) = ''number'' \<and> typeof (longitude ac) = ''number''
         \<and> truthy_string (icao24 ac)")
  case False
  then have "track_record timestamp ac trs = Inr trs"
    unfolding track_record_def by (rule if_not_P)
  moreover from False have "buffer_after_record timestamp k ac bo = bo" for k bo
    by (cases "icao24 ac")
      (auto simp: buffer_after_record_def typeof_number split: js_value.splits)
  ultimately show ?thesis using assms by simp
next
  case True
  then obtain lon lat k where v: "longitude ac = JNumber lon" "latitude ac = JNumber lat"
      "icao24 ac = Some k" "k \<noteq> []"
    by (cases "icao24 ac") (auto simp: typeof_number)
  show ?thesis
  proof (cases "map_of trs k")
    case None
    then have "track_record timestamp ac trs = Inr (AList.update k [(lon, lat, timestamp)] trs)"
      using v by (simp add: track_record_def)
    moreover have "wf_tracks (AList.update k [(lon, lat, timestamp)] trs)"
      using assms by (simp add: wf_tracks_update)
    moreover have "map_of (AList.update k [(lon, lat, timestamp)] trs) k'
        = buffer_after_record timestamp k' ac (map_of trs k')" for k'
      using v None by (auto simp: update_conv' buffer_after_record_def)
    ultimately show ?thesis by simp
  next
    case (Some buf)
    then have ne: "buf \<noteq> []" using assms by (rule wf_tracks_nonempty[rotated])
    obtain lastLon lastLat lastTime where l: "last buf = (lastLon, lastLat, lastTime)"
      by (cases "last buf") auto
    show ?thesis
    proof (cases "moved (last buf) lon lat")
      case False
      then have "track_record timestamp ac trs = Inr trs"
        using v Some ne l by (simp add: track_record_def moved_def)
      moreover have "map_of trs k' = buffer_after_record timestamp k' ac (map_of trs k')" for k'
        using v Some False by (auto simp: buffer_after_record_def)
      ultimately show ?thesis using assms by simp
    next
      case True
      let ?new = "slice_last MAX_TRACK_POINTS (buf @ [(lon, lat, timestamp)])"
      have "track_record timestamp ac trs = Inr (AList.update k ?new trs)"
        using v Some ne l True
        by (simp add: track_record_def moved_def Let_def slice_last_id)
      moreover have "wf_tracks (AList.update k ?new trs)"
        using assms by (simp add: wf_tracks_update slice_last_nonempty MAX_TRACK_POINTS_def)
      moreover have "map_of (AList.update k ?new trs) k'
          = buffer_after_record timestamp k' ac (map_of trs k')" for k'
        using v Some True by (auto simp: update_conv' buffer_after_record_def)
      ultimately show ?thesis by simp
    qed
  qed
qed

lemma forEach_track_record_view:
  assumes "wf_tracks trs"
  shows "\<exists>trs'. forEach (track_record timestamp) acs trs = Inr trs' \<and> wf_tracks trs'
           \<and> (\<forall>k. map_of trs' k = fold (buffer_after_record timestamp k) acs (map_of trs k))"
  using assms
proof (induction acs arbitrary: trs)
  case Nil
  then show ?case by simp
next
  case (Cons ac acs)
  from track_record_view[OF Cons.prems, of timestamp ac]
  obtain trs1 where 1: "track_record timestamp ac trs = Inr trs1" "wf_tracks trs1"
      "\<forall>k. map_of trs1 k = buffer_after_record timestamp k ac (map_of trs k)"
    by blast
  from Cons.IH[OF 1(2)] obtain trs' where 2: "forEach (track_record timestamp) acs trs1 = Inr trs'"
      "wf_tracks trs'"
      "\<forall>k. map_of trs' k = fold (buffer_after_record timestamp k) acs (map_of trs1 k)"
    by blast
  show ?case using 1 2 by simp
qed

lemma cleanup_key_view:
  assumes "wf_tracks trs" and "map_of trs k = Some buf"
  shows "cleanup_key acs (dateNow div 1000) (maxAgeMinutes * 60 * 2) k trs =
    Inr (if List.find (\<lambda>ac. icao24 ac = Some k) acs = None \<and> stale dateNow maxAgeMinutes buf
         then AList.delete k trs else trs)"
proof -
  have ne: "buf \<noteq> []" using assms by (rule wf_tracks_nonempty)
  obtain lastLon lastLat lastTime where l: "last buf = (lastLon, lastLat, lastTime)"
    by (cases "last buf") auto
  show ?thesis
    using assms(2) ne l
    by (cases "List.find (\<lambda>ac. icao24 ac = Some k) acs") (simp_all add: cleanup_key_def stale_def)
qed

lemma forEach_cleanup_view:
  assumes "wf_tracks trs" and "distinct ks" and "set ks \<subseteq> fst ` set trs"
  shows "\<exists>trs'. forEach (cleanup_key acs (dateNow div 1000) (maxAgeMinutes * 60 * 2)) ks trs = Inr trs'
           \<and> wf_tracks trs'
           \<and> (\<forall>k. map_of trs' k =
                 (if k \<in> set ks then buffer_after_cleanup dateNow maxAgeMinutes acs k (map_of trs k)
                  else map_of trs k))"
  using assms
proof (induction ks arbitrary: trs)
  case Nil
  then show ?case by simp
next
  case (Cons k ks)
  from Cons.prems(3) have "k \<in> fst ` set trs" by simp
  then obtain buf where buf: "map_of trs k = Some buf"
    by (metis domD dom_map_of_conv_image_fst)
  let ?trs1 = "if List.find (\<lambda>ac. icao24 ac = Some k) acs = None \<and> stale dateNow maxAgeMinutes buf
         then AList.delete k trs else trs"
  have step: "cleanup_key acs (dateNow div 1000) (maxAgeMinutes * 60 * 2) k trs = Inr ?trs1"
    using Cons.prems(1) buf by (rule cleanup_key_view)
  have wf1: "wf_tracks ?trs1"
    using Cons.prems(1) by (simp add: wf_tracks_delete)
  have d: "distinct ks" and notin: "k \<notin> set ks"
    using Cons.prems(2) by simp_all
  have sub: "set ks \<subseteq> fst ` set ?trs1"
  proof -
    have "fst ` set (AList.delete k trs) = fst ` set trs - {k}"
      using delete_keys[of k trs] by (metis list.set_map set_removeAll)
    then show ?thesis using Cons.prems(3) notin by auto
  qed
  from Cons.IH[OF wf1 d sub] obtain trs' where
    r: "forEach (cleanup_key acs (dateNow div 1000) (maxAgeMinutes * 60 * 2)) ks ?trs1 = Inr trs'"
      "wf_tracks trs'"
      "\<forall>k'. map_of trs' k' =
         (if k' \<in> set ks then buffer_after_cleanup dateNow maxAgeMinutes acs k' (map_of ?trs1 k')
          else map_of ?trs1 k')"
    by blast
  have m1: "map_of ?trs1 k = buffer_after_cleanup dateNow maxAgeMinutes acs k (map_of trs k)"
    using buf by (simp add: buffer_after_cleanup_def delete_conv')
  have m2: "k' \<noteq> k \<Longrightarrow> map_of ?trs1 k' = map_of trs k'" for k'
    by (simp add: delete_conv')
  have "forEach (cleanup_key acs (dateNow div 1000) (maxAgeMinutes * 60 * 2)) (k # ks) trs = Inr trs'"
    using step r(1) by simp
  moreover have "map_of trs' k' =
      (if k' \<in> set (k # ks) then buffer_after_cleanup dateNow maxAgeMinutes acs k' (map_of trs k')
       else map_of trs k')" for k'
  proof (cases "k' = k")
    case True
    then show ?thesis using r(3) notin m1 by simp
  next
    case False
    then show ?thesis using r(3) m2 by simp
  qed
  ultimately show ?case using r(2) by blast
qed

lemma updateTracks_view:
  assumes "wf_tracks trs"
  shows "\<exists>trs'. updateTracks maxAgeMinutes timestamp dateNow acs trs = Inr trs' \<and> wf_tracks trs'
           \<and> (\<forall>k. map_of trs' k =
                 buffer_after_cleanup dateNow maxAgeMinutes acs k
                   (fold (buffer_after_record timestamp k) acs (map_of trs k)))"
proof -
  from forEach_track_record_view[OF assms, of timestamp acs]
  obtain trs1 where 1: "forEach (track_record timestamp) acs trs = Inr trs1" "wf_tracks trs1"
      "\<forall>k. map_of trs1 k = fold (buffer_after_record timestamp k) acs (map_of trs k)"
    by blast
  have "distinct (map fst trs1)" using 1(2) by (simp add: wf_tracks_def)
  moreover have "set (map fst trs1) \<subseteq> fst ` set trs1" by simp
  ultimately obtain trs' where
    2: "forEach (cleanup_key acs (dateNow div 1000) (maxAgeMinutes * 60 * 2)) (map fst trs1) trs1 = Inr trs'"
      "wf_tracks trs'"
      "\<forall>k. map_of trs' k =
         (if k \<in> set (map fst trs1) then buffer_after_cleanup dateNow maxAgeMinutes acs k (map_of trs1 k)
          else map_of trs1 k)"
    using forEach_cleanup_view[OF 1(2), of "map fst trs1" acs dateNow maxAgeMinutes] by blast
  have "map_of trs' k = buffer_after_cleanup dateNow maxAgeMinutes acs k (map_of trs1 k)" for k
  proof (cases "k \<in> set (map fst trs1)")
    case True
    then show ?thesis using 2(3) by simp
  next
    case False
    then have "map_of trs1 k = None"
      by (simp add: map_of_eq_None_iff)
    then show ?thesis using 2(3) False by (simp add: buffer_after_cleanup_def)
  qed
  then show ?thesis
    using 1 2 by (simp add: updateTracks_def Let_def)
qed

lemma track_record_moved:
  "track_record timestamp ac newTracks =
     (case (longitude ac, latitude ac, icao24 ac) of
        (JNumber lon, JNumber lat, Some k) \<Rightarrow>
          if k = [] then Inr newTracks
          else
            (case map_of newTracks k of
               None \<Rightarrow> Inr (AList.update k [(lon, lat, timestamp)] newTracks)
             | Some buf \<Rightarrow>
                 if buf = [] then Inl TypeError
                 else if moved (last buf) lon lat
                 then Inr (AList.update k
                        (slice_last MAX_TRACK_POINTS (buf @ [(lon, lat, timestamp)])) newTracks)
                 else Inr newTracks)
      | _ \<Rightarrow> Inr newTracks)"
proof (cases "typeof (latitude ac) = ''number'' \<and> typeof (longitude ac) = ''number''
         \<and> truthy_string (icao24 ac)")
  case False
  then have "track_record timestamp ac newTracks = Inr newTracks"
    unfolding track_record_def by (rule if_not_P)
  moreover from False have "(case (longitude ac, latitude ac, icao24 ac) of
        (JNumber lon, JNumber lat, Some k) \<Rightarrow>
          if k = [] then Inr newTracks
          else
            (case map_of newTracks k of
               None \<Rightarrow> Inr (AList.update k [(lon, lat, timestamp)] newTracks)
             | Some buf \<Rightarrow>
                 if buf = [] then Inl TypeError
                 else if moved (last buf) lon lat
                 then Inr (AList.update k
                        (slice_last MAX_TRACK_POINTS (buf @ [(lon, lat, timestamp)])) newTracks)
                 else Inr newTracks)
      | _ \<Rightarrow> Inr newTracks) = (Inr newTracks :: js_error + tracks)"
    by (cases "icao24 ac") (auto simp: typeof_number split: js_value.splits)
  ultimately show ?thesis by simp
next
  case True
  then obtain lon lat k where v: "longitude ac = JNumber lon" "latitude ac = JNumber lat"
      "icao24 ac = Some k" "k \<noteq> []"
    by (cases "icao24 ac") (auto simp: typeof_number)
  show ?thesis
  proof (cases "map_of newTracks k")
    case None
    then show ?thesis using v by (simp add: track_record_def)
  next
    case (Some buf)
    obtain lastLon lastLat lastTime where l: "last buf = (lastLon, lastLat, lastTime)"
      by (cases "last buf") auto
    show ?thesis
      using v Some l by (simp add: track_record_def moved_def Let_def slice_last_id)
  qed
qed

lemmas tracks_eval = track_record_moved useAircraftTracks_def updateTracks_def cleanup_key_def
  MAX_TRACK_POINTS_def slice_last_def Let_def

section \<open>Eviction\<close>







section \<open>Empty snapshots\<close>

text \<open>
  Claim C2, as stated, fails: with the threshold 5 an empty snapshot that arrives 740
  seconds after the last point of the buffer of A leaves that buffer in place, since the
  hook calls \<^verbatim>\<open>updateTracks\<close> for a non-empty array only.
\<close>

theorem C2_counterexample:
  "real_of_int (1800000 div 1000) - real_of_int 1060000 / 1000 = 740
   \<and> (740::real) > 2 * (5 * 60)
   \<and> useAircraftTracks 5 1800000 1800000 [] [(''A'', [(20, 10, 1060000)])]
       = Inr [(''A'', [(20, 10, 1060000)])]
   \<and> map_of [(''A'', [(20, 10, 1060000)])] ''A'' = Some [(20, 10, 1060000)]"
  by (simp add: useAircraftTracks_def)

text \<open>
  Claim C2, amended: the hook does not run the update for a snapshot with zero entries, so
  such a snapshot leaves the track map as it is and evicts no buffer, however old.
  \<^verbatim>\<open>updateTracks\<close> itself, applied to an empty list and a well-formed track map,
  runs the normal staleness check: it removes the buffers whose last point is older than
  \<open>2 * maxAgeMinutes\<close> and keeps every other buffer as it is.
\<close>

theorem C2_empty_snapshot:
  "useAircraftTracks maxAgeMinutes timestamp dateNow [] trs = Inr trs
   \<and> (wf_tracks trs \<longrightarrow>
        (\<exists>trs'. updateTracks maxAgeMinutes timestamp dateNow [] trs = Inr trs'
           \<and> (\<forall>k. map_of trs' k =
                 (case map_of trs k of
                    None \<Rightarrow> None
                  | Some buf \<Rightarrow>
                      if real_of_int (dateNow div 1000) - real_of_int (snd (snd (last buf))) / 1000
                           > 2 * (maxAgeMinutes * 60)
                      then None else Some buf))))"
proof (intro conjI impI)
  show "useAircraftTracks maxAgeMinutes timestamp dateNow [] trs = Inr trs"
    by (simp add: useAircraftTracks_def)
next
  assume "wf_tracks trs"
  from updateTracks_view[OF this, of maxAgeMinutes timestamp dateNow "[]"]
  obtain trs' where r: "updateTracks maxAgeMinutes timestamp dateNow [] trs = Inr trs'"
    and v: "\<forall>k. map_of trs' k =
                 buffer_after_cleanup dateNow maxAgeMinutes [] k
                   (fold (buffer_after_record timestamp k) [] (map_of trs k))"
    by blast
  have "map_of trs' k = (case map_of trs k of
                    None \<Rightarrow> None
                  | Some buf \<Rightarrow>
                      if real_of_int (dateNow div 1000) - real_of_int (snd (snd (last buf))) / 1000
                           > 2 * (maxAgeMinutes * 60)
                      then None else Some buf)" for k
    using v by (simp add: buffer_after_cleanup_def stale_def mult.commute split: option.splits)
  then show "\<exists>trs'. updateTracks maxAgeMinutes timestamp dateNow [] trs = Inr trs'
           \<and> (\<forall>k. map_of trs' k =
                 (case map_of trs k of
                    None \<Rightarrow> None
                  | Some buf \<Rightarrow>
                      if real_of_int (dateNow div 1000) - real_of_int (snd (snd (last buf))) / 1000
                           > 2 * (maxAgeMinutes * 60)
                      then None else Some buf))"
    using r by blast
qed

theorem C2_empty_snapshot_witness:
  "wf_tracks [(''A'', [(20, 10, 1060000)])]
   \<and> useAircraftTracks 5 1800000 1800000 [] [(''A'', [(20, 10, 1060000)])]
       = Inr [(''A'', [(20, 10, 1060000)])]
   \<and> (\<exists>trs'. updateTracks 5 1800000 1800000 [] [(''A'', [(20, 10, 1060000)])] = Inr trs'
         \<and> map_of trs' ''A'' = None)"
proof -
  have wf: "wf_tracks [(''A'', [(20, 10, 1060000)])]"
    by (simp add: wf_tracks_def)
  from C2_empty_snapshot [of 5 1800000 1800000 "[(''A'', [(20, 10, 1060000)])]"] wf
  obtain trs' where "updateTracks 5 1800000 1800000 [] [(''A'', [(20, 10, 1060000)])] = Inr trs'"
    and "\<forall>k. map_of trs' k =
                 (case map_of [(''A'', [(20, 10, 1060000::int)])] k of
                    None \<Rightarrow> None
                  | Some buf \<Rightarrow>
                      if real_of_int (1800000 div 1000) - real_of_int (snd (snd (last buf))) / 1000
                           > 2 * (5 * 60)
                      then None else Some buf)"
    by blast
  then have "updateTracks 5 1800000 1800000 [] [(''A'', [(20, 10, 1060000)])] = Inr trs'
         \<and> map_of trs' ''A'' = None"
    by simp
  then show ?thesis
    using wf C2_empty_snapshot [of 5 1800000 1800000 "[(''A'', [(20, 10, 1060000)])]"] by blast
qed

section \<open>Coordinates\<close>

text \<open>
  Claim C5: for a record with an identifier, every pair of numbers is a valid position, 0
  included: applied to the empty track map the update gives the identifier a buffer with
  that one point, and for any track map without the identifier the record creates the
  buffer. A record whose latitude is not a number (null, missing, a string) gives no
  point and no error, whatever its longitude: the track map is unchanged.
\<close>

theorem C5_zero_coordinates:
  assumes "icao24 ac = Some k" and "k \<noteq> []"
  shows "(latitude ac = JNumber lat \<and> longitude ac = JNumber lon \<longrightarrow>
            useAircraftTracks maxAgeMinutes timestamp dateNow [ac] [] = Inr [(k, [(lon, lat, timestamp)])]
            \<and> (map_of trs k = None \<longrightarrow>
                 track_record timestamp ac trs = Inr (AList.update k [(lon, lat, timestamp)] trs)))
       \<and> (typeof (latitude ac) \<noteq> ''number'' \<longrightarrow>
            useAircraftTracks maxAgeMinutes timestamp dateNow [ac] [] = Inr []
            \<and> track_record timestamp ac trs = Inr trs)"
  using assms
  by (auto simp: useAircraftTracks_def updateTracks_def track_record_def cleanup_key_def Let_def)

theorem C5_zero_coordinates_witness:
  "useAircraftTracks 5 1000000 1000000
      [\<lparr>icao24 = Some ''A'', latitude = JNumber 0, longitude = JNumber 0, lastseen = Some 1000\<rparr>] []
     = Inr [(''A'', [(0, 0, 1000000)])]
   \<and> track_record 1000000
        \<lparr>icao24 = Some ''A'', latitude = JNumber 0, longitude = JNumber 0, lastseen = Some 1000\<rparr>
        [(''B'', [(1, 2, 3)])]
     = Inr [(''B'', [(1, 2, 3)]), (''A'', [(0, 0, 1000000)])]
   \<and> useAircraftTracks 5 1000000 1000000
      [\<lparr>icao24 = Some ''A'', latitude = JNull, longitude = JNumber 12, lastseen = Some 1000\<rparr>] []
     = Inr []
   \<and> track_record 1000000
        \<lparr>icao24 = Some ''A'', latitude = JNull, longitude = JNumber 12, lastseen = Some 1000\<rparr>
        [(''B'', [(1, 2, 3)])]
     = Inr [(''B'', [(1, 2, 3)])]"
  using
    C5_zero_coordinates [of "\<lparr>icao24 = Some ''A'', latitude = JNumber 0, longitude = JNumber 0, lastseen = Some 1000\<rparr>"
      "''A''" 0 0 5 1000000 1000000 "[(''B'', [(1, 2, 3)])]"]
    C5_zero_coordinates [of "\<lparr>icao24 = Some ''A'', latitude = JNull, longitude = JNumber 12, lastseen = Some 1000\<rparr>"
      "''A''" 0 0 5 1000000 1000000 "[(''B'', [(1, 2, 3)])]"]
  by simp

section \<open>The hook over time, identifier by identifier\<close>

lemma useAircraftTracks_view:
  assumes "wf_tracks trs"
  shows "\<exists>trs'. useAircraftTracks maxAgeMinutes timestamp dateNow acs trs = Inr trs' \<and> wf_tracks trs'
           \<and> (\<forall>k. map_of trs' k =
                 buffer_after_tick k (maxAgeMinutes, timestamp, dateNow, acs) (map_of trs k))"
proof (cases "acs = []")
  case True
  then show ?thesis using assms
    by (simp add: useAircraftTracks_def buffer_after_tick_def)
next
  case False
  then have "useAircraftTracks maxAgeMinutes timestamp dateNow acs trs
      = updateTracks maxAgeMinutes timestamp dateNow acs trs"
    by (simp add: useAircraftTracks_def)
  then show ?thesis
    using updateTracks_view[OF assms, of maxAgeMinutes timestamp dateNow acs] False
    by (simp add: buffer_after_tick_def)
qed

lemma run_ticks_view:
  assumes "wf_tracks trs"
  shows "\<exists>trs'. run_ticks ticks trs = Inr trs' \<and> wf_tracks trs'
           \<and> (\<forall>k. map_of trs' k = fold (buffer_after_tick k) ticks (map_of trs k))"
  using assms
proof (induction ticks arbitrary: trs)
  case Nil
  then show ?case by simp
next
  case (Cons t ticks)
  obtain maxAgeMinutes timestamp dateNow acs where t: "t = (maxAgeMinutes, timestamp, dateNow, acs)"
    by (cases t) auto
  from useAircraftTracks_view[OF Cons.prems, of maxAgeMinutes timestamp dateNow acs]
  obtain trs1 where 1: "useAircraftTracks maxAgeMinutes timestamp dateNow acs trs = Inr trs1"
      "wf_tracks trs1"
      "\<forall>k. map_of trs1 k = buffer_after_tick k t (map_of trs k)"
    unfolding t by blast
  from Cons.IH[OF 1(2)] obtain trs' where 2: "run_ticks ticks trs1 = Inr trs'" "wf_tracks trs'"
      "\<forall>k. map_of trs' k = fold (buffer_after_tick k) ticks (map_of trs1 k)"
    by blast
  show ?case using 1 2 by (simp add: t)
qed

lemma length_slice_last: "length (slice_last n xs) \<le> n"
  by (simp add: slice_last_def)

lemma bounded_record: "bounded bo \<Longrightarrow> bounded (buffer_after_record timestamp k ac bo)"
  by (auto simp: bounded_def buffer_after_record_def length_slice_last MAX_TRACK_POINTS_def
      split: js_value.splits option.splits)

lemma bounded_fold_record: "bounded bo \<Longrightarrow> bounded (fold (buffer_after_record timestamp k) acs bo)"
  by (induction acs arbitrary: bo) (simp_all add: bounded_record)

lemma bounded_cleanup: "bounded bo \<Longrightarrow> bounded (buffer_after_cleanup dateNow maxAgeMinutes acs k bo)"
  by (auto simp: bounded_def buffer_after_cleanup_def split: option.splits)

lemma bounded_tick: "bounded bo \<Longrightarrow> bounded (buffer_after_tick k t bo)"
  by (cases t) (simp add: buffer_after_tick_def bounded_cleanup bounded_fold_record)

lemma bounded_fold_tick: "bounded bo \<Longrightarrow> bounded (fold (buffer_after_tick k) ticks bo)"
  by (induction ticks arbitrary: bo) (simp_all add: bounded_tick)

lemma buffer_after_cleanup_present:
  "List.find (\<lambda>ac. icao24 ac = Some k) acs \<noteq> None \<Longrightarrow>
     buffer_after_cleanup dateNow maxAgeMinutes acs k bo = bo"
  by (auto simp: buffer_after_cleanup_def split: option.splits)

lemma find_present_iff:
  "List.find (\<lambda>ac. icao24 ac = Some k) acs \<noteq> None \<longleftrightarrow> (\<exists>ac \<in> set acs. icao24 ac = Some k)"
  unfolding find_None_iff by blast

lemma buffer_after_tick_present:
  assumes "\<exists>ac \<in> set acs. icao24 ac = Some k"
  shows "buffer_after_tick k (maxAgeMinutes, timestamp, dateNow, acs) bo
     = fold (buffer_after_record timestamp k) acs bo"
proof -
  have "acs \<noteq> []" using assms by auto
  moreover have "List.find (\<lambda>ac. icao24 ac = Some k) acs \<noteq> None"
    using assms by (simp only: find_present_iff)
  ultimately show ?thesis
    by (simp add: buffer_after_tick_def buffer_after_cleanup_present)
qed

lemma fold_record_not_moved:
  assumes "\<forall>ac \<in> set acs. \<forall>lon lat. icao24 ac = Some k \<and> longitude ac = JNumber lon
      \<and> latitude ac = JNumber lat \<longrightarrow> \<not> moved (last buf) lon lat"
  shows "fold (buffer_after_record timestamp k) acs (Some buf) = Some buf"
  using assms
proof (induction acs)
  case Nil
  then show ?case by simp
next
  case (Cons ac acs)
  then have "buffer_after_record timestamp k ac (Some buf) = Some buf"
    by (auto simp: buffer_after_record_def split: js_value.splits)
  then show ?case using Cons by simp
qed

lemma fold_tick_not_moved:
  assumes "\<forall>(maxAgeMinutes, timestamp, dateNow, acs) \<in> set ticks.
      (\<exists>ac \<in> set acs. icao24 ac = Some k)
      \<and> (\<forall>ac \<in> set acs. \<forall>lon lat. icao24 ac = Some k \<and> longitude ac = JNumber lon
            \<and> latitude ac = JNumber lat \<longrightarrow> \<not> moved (last buf) lon lat)"
  shows "fold (buffer_after_tick k) ticks (Some buf) = Some buf"
  using assms
proof (induction ticks)
  case Nil
  then show ?case by simp
next
  case (Cons t ticks)
  obtain maxAgeMinutes timestamp dateNow acs where t: "t = (maxAgeMinutes, timestamp, dateNow, acs)"
    by (cases t) auto
  from Cons.prems have p: "\<exists>ac \<in> set acs. icao24 ac = Some k"
    and q: "\<forall>ac \<in> set acs. \<forall>lon lat. icao24 ac = Some k \<and> longitude ac = JNumber lon
            \<and> latitude ac = JNumber lat \<longrightarrow> \<not> moved (last buf) lon lat"
    by (simp_all add: t)
  have "buffer_after_tick k t (Some buf) = Some buf"
    unfolding t using buffer_after_tick_present[OF p] fold_record_not_moved[OF q] by simp
  then show ?case using Cons by simp
qed

lemma slice_last_append:
  "slice_last n (slice_last n xs @ ys) = slice_last n (xs @ ys)"
  by (cases "length xs \<le> n") (simp_all add: slice_last_def add.commute)

lemma last_slice_last: "xs \<noteq> [] \<Longrightarrow> 0 < n \<Longrightarrow> last (slice_last n xs) = last xs"
  by (simp add: slice_last_def last_drop)

lemma fold_record_filter:
  "fold (buffer_after_record timestamp k) acs bo
     = fold (buffer_after_record timestamp k) (filter (\<lambda>a. icao24 a = Some k) acs) bo"
proof (induction acs arbitrary: bo)
  case Nil
  then show ?case by simp
next
  case (Cons ac acs)
  show ?case
  proof (cases "icao24 ac = Some k")
    case True
    then show ?thesis using Cons by simp
  next
    case False
    then have "buffer_after_record timestamp k ac bo = bo"
      by (simp add: buffer_after_record_def split: js_value.splits)
    then show ?thesis using False Cons by simp
  qed
qed

lemma buffer_after_tick_single:
  assumes "filter (\<lambda>a. icao24 a = Some k) acs = [ac]"
  shows "buffer_after_tick k (maxAgeMinutes, timestamp, dateNow, acs) bo
     = buffer_after_record timestamp k ac bo"
proof -
  have "ac \<in> set (filter (\<lambda>a. icao24 a = Some k) acs)" using assms by simp
  then have "\<exists>ac \<in> set acs. icao24 ac = Some k" by auto
  then show ?thesis
    using fold_record_filter[of timestamp k acs bo] assms
    by (simp add: buffer_after_tick_present)
qed

lemma buffer_after_tick_reported:
  assumes "reported k t (lon, lat, time)" and "k \<noteq> []"
  shows "buffer_after_tick k t bo =
     (case bo of
        None \<Rightarrow> Some [(lon, lat, time)]
      | Some buf \<Rightarrow>
          if moved (last buf) lon lat
          then Some (slice_last MAX_TRACK_POINTS (buf @ [(lon, lat, time)]))
          else Some buf)"
proof -
  obtain maxAgeMinutes timestamp dateNow acs where t: "t = (maxAgeMinutes, timestamp, dateNow, acs)"
    by (cases t) auto
  from assms(1) obtain ac where ac: "filter (\<lambda>a. icao24 a = Some k) acs = [ac]"
      "longitude ac = JNumber lon" "latitude ac = JNumber lat" "timestamp = time"
    by (auto simp: reported_def t split: list.splits)
  have "ac \<in> set (filter (\<lambda>a. icao24 a = Some k) acs)" using ac(1) by simp
  then have "icao24 ac = Some k" by simp
  then show ?thesis
    unfolding t buffer_after_tick_single[OF ac(1)]
    using ac(2-4) assms(2) by (simp add: buffer_after_record_def)
qed

lemma fold_tick_feed:
  assumes "k \<noteq> []" and "list_all2 (reported k) ticks pts"
    and "buf \<noteq> []"
    and "successively (\<lambda>p q. moved p (fst q) (fst (snd q))) (last buf # pts)"
  shows "fold (buffer_after_tick k) ticks (Some (slice_last MAX_TRACK_POINTS buf))
     = Some (slice_last MAX_TRACK_POINTS (buf @ pts))"
  using assms(2-)
proof (induction ticks pts arbitrary: buf rule: list_all2_induct)
  case Nil
  then show ?case by simp
next
  case (Cons t ticks p pts)
  obtain lon lat time where p: "p = (lon, lat, time)" by (cases p) auto
  from Cons.prems(2) have mv: "moved (last buf) lon lat"
    and rest: "successively (\<lambda>p q. moved p (fst q) (fst (snd q))) (p # pts)"
    by (simp_all add: p)
  have l: "last (slice_last MAX_TRACK_POINTS buf) = last buf"
    using Cons.prems(1) by (simp add: last_slice_last MAX_TRACK_POINTS_def)
  have "buffer_after_tick k t (Some (slice_last MAX_TRACK_POINTS buf))
      = Some (slice_last MAX_TRACK_POINTS (buf @ [p]))"
    using buffer_after_tick_reported[OF Cons.hyps(1)[unfolded p] assms(1)] mv l
    by (simp add: slice_last_append p)
  moreover have "fold (buffer_after_tick k) ticks (Some (slice_last MAX_TRACK_POINTS (buf @ [p])))
      = Some (slice_last MAX_TRACK_POINTS ((buf @ [p]) @ pts))"
    using rest by (intro Cons.IH) simp_all
  ultimately show ?case by simp
qed

lemma fold_tick_feed_new:
  assumes "k \<noteq> []" and "list_all2 (reported k) ticks pts" and "pts \<noteq> []"
    and "successively (\<lambda>p q. moved p (fst q) (fst (snd q))) pts"
  shows "fold (buffer_after_tick k) ticks None = Some (slice_last MAX_TRACK_POINTS pts)"
proof -
  from assms(2,3) obtain t ticks' p pts' where
    s: "ticks = t # ticks'" "pts = p # pts'" "reported k t p" "list_all2 (reported k) ticks' pts'"
    by (cases ticks; cases pts) auto
  obtain lon lat time where p: "p = (lon, lat, time)" by (cases p) auto
  have "buffer_after_tick k t None = Some (slice_last MAX_TRACK_POINTS [p])"
    using buffer_after_tick_reported[OF s(3)[unfolded p] assms(1)]
    by (simp add: p slice_last_def MAX_TRACK_POINTS_def)
  moreover have "fold (buffer_after_tick k) ticks' (Some (slice_last MAX_TRACK_POINTS [p]))
      = Some (slice_last MAX_TRACK_POINTS ([p] @ pts'))"
    using assms(4) s(2) by (intro fold_tick_feed[OF assms(1) s(4)]) simp_all
  ultimately show ?thesis by (simp add: s)
qed

section \<open>The threshold on recorded points\<close>

lemma double_10_0008: "double 10.0008 = 5629949894175857 / 562949953421312"
  by (simp add: double_eval)

lemma double_10_0016: "double 10.0016 = 2815200127069297 / 281474976710656"
  by (simp add: double_eval)

lemma drift_first: "\<not> moved (20, 10, 1000000) 20 (double 10.0008)"
  unfolding moved_def double_10_0008 TRACK_MIN_DISTANCE_CHANGE_value
  by (simp add: double_eval)

lemma drift_second: "moved (20, 10, 1000000) 20 (double 10.0016)"
  unfolding moved_def double_10_0016 TRACK_MIN_DISTANCE_CHANGE_value
  by (simp add: double_eval)

lemma drift_step: "\<bar>double (double 10.0008 - double 10.0016)\<bar> \<le> TRACK_MIN_DISTANCE_CHANGE"
  unfolding double_10_0008 double_10_0016 TRACK_MIN_DISTANCE_CHANGE_value
  by (simp add: double_eval)

text \<open>
  Claim C1, as stated, fails: the buffer of A holds one point at latitude 10, and two
  positions follow, at latitudes 10.0008 and 10.0016 and the same longitude. Each differs
  from the one before by no more than the threshold 0.001, and the buffer ends with two
  points, since the second position is 0.0016 away from the last recorded point.
\<close>

theorem C1_counterexample:
  "\<bar>double (10 - double 10.0008)\<bar> \<le> TRACK_MIN_DISTANCE_CHANGE
   \<and> \<bar>double (double 10.0008 - double 10.0016)\<bar> \<le> TRACK_MIN_DISTANCE_CHANGE
   \<and> \<bar>double (20 - 20)\<bar> \<le> TRACK_MIN_DISTANCE_CHANGE
   \<and> run_ticks
        [(5, 1060000, 1060000,
          [\<lparr>icao24 = Some ''A'', latitude = JNumber (double 10.0008), longitude = JNumber 20,
             lastseen = Some 1060\<rparr>]),
         (5, 1120000, 1120000,
          [\<lparr>icao24 = Some ''A'', latitude = JNumber (double 10.0016), longitude = JNumber 20,
             lastseen = Some 1120\<rparr>])]
        [(''A'', [(20, 10, 1000000)])]
      = Inr [(''A'', [(20, 10, 1000000), (20, double 10.0016, 1120000)])]
   \<and> length [(20::real, 10::real, 1000000::int), (20, double 10.0016, 1120000)] = 2"
proof -
  have "\<bar>double (10 - double 10.0008)\<bar> \<le> TRACK_MIN_DISTANCE_CHANGE"
    and "\<bar>double (20 - 20)\<bar> \<le> TRACK_MIN_DISTANCE_CHANGE"
    using drift_first by (simp_all add: moved_def)
  moreover have "run_ticks
        [(5, 1060000, 1060000,
          [\<lparr>icao24 = Some ''A'', latitude = JNumber (double 10.0008), longitude = JNumber 20,
             lastseen = Some 1060\<rparr>]),
         (5, 1120000, 1120000,
          [\<lparr>icao24 = Some ''A'', latitude = JNumber (double 10.0016), longitude = JNumber 20,
             lastseen = Some 1120\<rparr>])]
        [(''A'', [(20, 10, 1000000)])]
      = Inr [(''A'', [(20, 10, 1000000), (20, double 10.0016, 1120000)])]"
    using drift_first drift_second by (simp add: tracks_eval)
  ultimately show ?thesis using drift_step by simp
qed


lemma track_record_existing:
  assumes "wf_tracks trs" and "map_of trs k = Some buf" and "k \<noteq> []"
    and "icao24 ac = Some k" and "longitude ac = JNumber lon" and "latitude ac = JNumber lat"
  shows "track_record timestamp ac trs =
     Inr (if \<bar>double (fst (last buf) - lon)\<bar> > TRACK_MIN_DISTANCE_CHANGE
             \<or> \<bar>double (fst (snd (last buf)) - lat)\<bar> > TRACK_MIN_DISTANCE_CHANGE
          then AList.update k (slice_last MAX_TRACK_POINTS (buf @ [(lon, lat, timestamp)])) trs
          else trs)"
proof -
  have ne: "buf \<noteq> []" using assms(1,2) by (rule wf_tracks_nonempty)
  show ?thesis
    using assms(2-) ne by (simp add: track_record_moved moved_def)
qed

text \<open>
  Claim C1, amended: for an identifier with a buffer in a well-formed track map, feeding
  any sequence of snapshots in which every position of that identifier is within the
  threshold of the buffer's last recorded point, on both axes, leaves the buffer exactly
  as it was (a buffer of one point keeps exactly one point), whatever the length of the
  sequence. A position is within the threshold when the absolute value of the difference
  that the code computes, in double precision, is at most the double 0.001. The test
  compares the incoming position with the last recorded point: the point is appended if
  the longitudes or the latitudes differ by more than the threshold, and otherwise the
  track map is unchanged. (At the latitudes 37.001 and 37.002 the computed difference is
  above the threshold, and the point is appended.)
\<close>

theorem C1_dedup_against_last_point:
  assumes "wf_tracks trs" and "map_of trs k = Some buf"
    and "\<forall>(maxAgeMinutes, timestamp, dateNow, acs) \<in> set ticks.
      (\<exists>ac \<in> set acs. icao24 ac = Some k)
      \<and> (\<forall>ac \<in> set acs. \<forall>lon lat. icao24 ac = Some k \<and> longitude ac = JNumber lon
            \<and> latitude ac = JNumber lat \<longrightarrow>
              \<bar>double (fst (last buf) - lon)\<bar> \<le> TRACK_MIN_DISTANCE_CHANGE
              \<and> \<bar>double (fst (snd (last buf)) - lat)\<bar> \<le> TRACK_MIN_DISTANCE_CHANGE)"
  shows "(\<exists>trs'. run_ticks ticks trs = Inr trs' \<and> map_of trs' k = Some buf)
     \<and> (k \<noteq> [] \<and> icao24 ac = Some k \<and> longitude ac = JNumber lon \<and> latitude ac = JNumber lat \<longrightarrow>
          track_record timestamp ac trs =
            Inr (if \<bar>double (fst (last buf) - lon)\<bar> > TRACK_MIN_DISTANCE_CHANGE
                    \<or> \<bar>double (fst (snd (last buf)) - lat)\<bar> > TRACK_MIN_DISTANCE_CHANGE
                 then AList.update k (slice_last MAX_TRACK_POINTS (buf @ [(lon, lat, timestamp)])) trs
                 else trs))"
proof (intro conjI impI)
  from run_ticks_view[OF assms(1), of ticks]
  obtain trs' where r: "run_ticks ticks trs = Inr trs'"
    and v: "\<forall>k. map_of trs' k = fold (buffer_after_tick k) ticks (map_of trs k)"
    by blast
  have "\<forall>(maxAgeMinutes, timestamp, dateNow, acs) \<in> set ticks.
      (\<exists>ac \<in> set acs. icao24 ac = Some k)
      \<and> (\<forall>ac \<in> set acs. \<forall>lon lat. icao24 ac = Some k \<and> longitude ac = JNumber lon
            \<and> latitude ac = JNumber lat \<longrightarrow> \<not> moved (last buf) lon lat)"
    using assms(3) by (fastforce simp: moved_def)
  then have "fold (buffer_after_tick k) ticks (Some buf) = Some buf"
    by (rule fold_tick_not_moved)
  then show "\<exists>trs'. run_ticks ticks trs = Inr trs' \<and> map_of trs' k = Some buf"
    using r v assms(2) by simp
next
  assume "k \<noteq> [] \<and> icao24 ac = Some k \<and> longitude ac = JNumber lon \<and> latitude ac = JNumber lat"
  then show "track_record timestamp ac trs =
            Inr (if \<bar>double (fst (last buf) - lon)\<bar> > TRACK_MIN_DISTANCE_CHANGE
                    \<or> \<bar>double (fst (snd (last buf)) - lat)\<bar> > TRACK_MIN_DISTANCE_CHANGE
                 then AList.update k (slice_last MAX_TRACK_POINTS (buf @ [(lon, lat, timestamp)])) trs
                 else trs)"
    using track_record_existing[OF assms(1,2)] by blast
qed

lemma double_10_0005: "double 10.0005 = 5629781009189831 / 562949953421312"
  by (simp add: double_eval)

lemma double_20_0005: "double 20.0005 = 5629640271701475 / 281474976710656"
  by (simp add: double_eval)

lemma double_37_001: "double 37.001 = 5207427806635491 / 140737488355328"
  by (simp add: double_eval)

lemma double_37_002: "double 37.002 = 5207568544123847 / 140737488355328"
  by (simp add: double_eval)

lemma near_lon: "\<bar>double (20 - double 20.0005)\<bar> \<le> TRACK_MIN_DISTANCE_CHANGE"
  unfolding double_20_0005 TRACK_MIN_DISTANCE_CHANGE_value by (simp add: double_eval)

lemma near_lat: "\<bar>double (10 - double 10.0005)\<bar> \<le> TRACK_MIN_DISTANCE_CHANGE"
  unfolding double_10_0005 TRACK_MIN_DISTANCE_CHANGE_value by (simp add: double_eval)

lemma boundary_lat: "\<bar>double (double 37.001 - double 37.002)\<bar> > TRACK_MIN_DISTANCE_CHANGE"
  unfolding double_37_001 double_37_002 TRACK_MIN_DISTANCE_CHANGE_value by (simp add: double_eval)

theorem C1_dedup_against_last_point_witness:
  "wf_tracks [(''A'', [(20, 10, 1000000)])]
   \<and> map_of [(''A'', [(20::real, 10::real, 1000000::int)])] ''A'' = Some [(20, 10, 1000000)]
   \<and> \<bar>double (20 - double 20.0005)\<bar> \<le> TRACK_MIN_DISTANCE_CHANGE
   \<and> \<bar>double (10 - double 10.0005)\<bar> \<le> TRACK_MIN_DISTANCE_CHANGE
   \<and> (\<exists>trs'. run_ticks
          [(5, 1060000, 1060000,
            [\<lparr>icao24 = Some ''A'', latitude = JNumber (double 10.0005),
               longitude = JNumber (double 20.0005), lastseen = Some 1060\<rparr>]),
           (5, 1120000, 1120000,
            [\<lparr>icao24 = Some ''A'', latitude = JNumber (double 10.0005),
               longitude = JNumber (double 20.0005), lastseen = Some 1120\<rparr>])]
          [(''A'', [(20, 10, 1000000)])] = Inr trs'
        \<and> map_of trs' ''A'' = Some [(20, 10, 1000000)])
   \<and> wf_tracks [(''B'', [(- 122, double 37.001, 1000000)])]
   \<and> \<bar>double (double 37.001 - double 37.002)\<bar> > TRACK_MIN_DISTANCE_CHANGE
   \<and> track_record 1120000
        \<lparr>icao24 = Some ''B'', latitude = JNumber (double 37.002), longitude = JNumber (- 122),
           lastseen = Some 1120\<rparr>
        [(''B'', [(- 122, double 37.001, 1000000)])]
      = Inr [(''B'', [(- 122, double 37.001, 1000000), (- 122, double 37.002, 1120000)])]"
proof -
  let ?trs = "[(''A'', [(20::real, 10::real, 1000000::int)])]"
  let ?ticks = "[(5::real, 1060000::int, 1060000::int,
            [\<lparr>icao24 = Some ''A'', latitude = JNumber (double 10.0005),
               longitude = JNumber (double 20.0005), lastseen = Some 1060\<rparr>]),
           (5, 1120000, 1120000,
            [\<lparr>icao24 = Some ''A'', latitude = JNumber (double 10.0005),
               longitude = JNumber (double 20.0005), lastseen = Some 1120\<rparr>])]"
  have wf: "wf_tracks ?trs" by (simp add: wf_tracks_def)
  have m: "map_of ?trs ''A'' = Some [(20, 10, 1000000)]" by simp
  have near: "\<forall>(maxAgeMinutes, timestamp, dateNow, acs) \<in> set ?ticks.
      (\<exists>ac \<in> set acs. icao24 ac = Some ''A'')
      \<and> (\<forall>ac \<in> set acs. \<forall>lon lat. icao24 ac = Some ''A'' \<and> longitude ac = JNumber lon
            \<and> latitude ac = JNumber lat \<longrightarrow>
              \<bar>double (fst (last [(20, 10, 1000000::int)]) - lon)\<bar> \<le> TRACK_MIN_DISTANCE_CHANGE
              \<and> \<bar>double (fst (snd (last [(20, 10, 1000000::int)])) - lat)\<bar> \<le> TRACK_MIN_DISTANCE_CHANGE)"
    using near_lon near_lat by simp
  have first: "\<exists>trs'. run_ticks ?ticks ?trs = Inr trs' \<and> map_of trs' ''A'' = Some [(20, 10, 1000000)]"
    using C1_dedup_against_last_point[OF wf m near] by blast
  let ?trs2 = "[(''B'', [(- 122::real, double 37.001, 1000000::int)])]"
  have wf2: "wf_tracks ?trs2" by (simp add: wf_tracks_def)
  have m2: "map_of ?trs2 ''B'' = Some [(- 122, double 37.001, 1000000)]" by simp
  have none: "\<forall>(maxAgeMinutes, timestamp, dateNow, acs) \<in> set ([] :: tick list).
      (\<exists>ac \<in> set acs. icao24 ac = Some ''B'')
      \<and> (\<forall>ac \<in> set acs. \<forall>lon lat. icao24 ac = Some ''B'' \<and> longitude ac = JNumber lon
            \<and> latitude ac = JNumber lat \<longrightarrow>
              \<bar>double (fst (last [(- 122, double 37.001, 1000000::int)]) - lon)\<bar> \<le> TRACK_MIN_DISTANCE_CHANGE
              \<and> \<bar>double (fst (snd (last [(- 122, double 37.001, 1000000::int)])) - lat)\<bar>
                  \<le> TRACK_MIN_DISTANCE_CHANGE)"
    by simp
  have "track_record 1120000
        \<lparr>icao24 = Some ''B'', latitude = JNumber (double 37.002), longitude = JNumber (- 122),
           lastseen = Some 1120\<rparr> ?trs2
      = Inr (if \<bar>double (fst (last [(- 122, double 37.001, 1000000::int)]) - (- 122))\<bar> > TRACK_MIN_DISTANCE_CHANGE
                    \<or> \<bar>double (fst (snd (last [(- 122, double 37.001, 1000000::int)])) - double 37.002)\<bar>
                        > TRACK_MIN_DISTANCE_CHANGE
                 then AList.update ''B'' (slice_last MAX_TRACK_POINTS
                        ([(- 122, double 37.001, 1000000)] @ [(- 122, double 37.002, 1120000)])) ?trs2
                 else ?trs2)"
    using C1_dedup_against_last_point[OF wf2 m2 none, of
        "\<lparr>icao24 = Some ''B'', latitude = JNumber (double 37.002), longitude = JNumber (- 122),
           lastseen = Some 1120\<rparr>" "- 122" "double 37.002" 1120000]
    by simp
  then have second: "track_record 1120000
        \<lparr>icao24 = Some ''B'', latitude = JNumber (double 37.002), longitude = JNumber (- 122),
           lastseen = Some 1120\<rparr> ?trs2
      = Inr [(''B'', [(- 122, double 37.001, 1000000), (- 122, double 37.002, 1120000)])]"
    using boundary_lat by (simp add: slice_last_def MAX_TRACK_POINTS_def)
  show ?thesis
    using wf m near_lon near_lat first wf2 boundary_lat second by blast
qed

section \<open>The cap on the length of a buffer\<close>

lemma bounded_map_of:
  "(\<forall>k buf. map_of trs k = Some buf \<longrightarrow> length buf \<le> MAX_TRACK_POINTS)
     \<longleftrightarrow> (\<forall>k. bounded (map_of trs k))"
  by (auto simp: bounded_def split: option.splits)

text \<open>
  Claim C4: starting from a well-formed track map whose buffers hold at most
  \<open>MAX_TRACK_POINTS\<close> points (the empty map of the hook's initial state is one), every
  sequence of runs of the effect ends normally in a track map whose buffers hold at most
  \<open>MAX_TRACK_POINTS\<close> points. When the runs report more than \<open>MAX_TRACK_POINTS\<close>
  positions of an identifier without a buffer, one per run and each more than the threshold
  away from the one before on some axis, the buffer of the identifier ends as the last
  \<open>MAX_TRACK_POINTS\<close> of the reported points, in their order.
\<close>

theorem C4_track_cap:
  assumes "wf_tracks trs"
    and "\<forall>k buf. map_of trs k = Some buf \<longrightarrow> length buf \<le> MAX_TRACK_POINTS"
  shows "\<exists>trs'. run_ticks ticks trs = Inr trs'
     \<and> (\<forall>k buf. map_of trs' k = Some buf \<longrightarrow> length buf \<le> MAX_TRACK_POINTS)
     \<and> (k \<noteq> [] \<and> map_of trs k = None \<and> list_all2 (reported k) ticks pts
          \<and> successively (\<lambda>p q. moved p (fst q) (fst (snd q))) pts
          \<and> length pts > MAX_TRACK_POINTS
        \<longrightarrow> map_of trs' k = Some (drop (length pts - MAX_TRACK_POINTS) pts)
           \<and> length (drop (length pts - MAX_TRACK_POINTS) pts) = MAX_TRACK_POINTS)"
proof -
  from run_ticks_view[OF assms(1), of ticks]
  obtain trs' where r: "run_ticks ticks trs = Inr trs'"
    and v: "\<forall>k. map_of trs' k = fold (buffer_after_tick k) ticks (map_of trs k)"
    by blast
  have "\<forall>k. bounded (map_of trs k)"
    using assms(2) by (rule iffD1[OF bounded_map_of])
  then have "\<forall>k. bounded (map_of trs' k)"
    using v by (simp add: bounded_fold_tick)
  then have cap: "\<forall>k buf. map_of trs' k = Some buf \<longrightarrow> length buf \<le> MAX_TRACK_POINTS"
    by (rule iffD2[OF bounded_map_of])
  have feed: "map_of trs' k = Some (drop (length pts - MAX_TRACK_POINTS) pts)
           \<and> length (drop (length pts - MAX_TRACK_POINTS) pts) = MAX_TRACK_POINTS"
    if h: "k \<noteq> [] \<and> map_of trs k = None \<and> list_all2 (reported k) ticks pts
          \<and> successively (\<lambda>p q. moved p (fst q) (fst (snd q))) pts
          \<and> length pts > MAX_TRACK_POINTS"
  proof -
    from h have "pts \<noteq> []" by auto
    then have "fold (buffer_after_tick k) ticks None = Some (slice_last MAX_TRACK_POINTS pts)"
      using h by (intro fold_tick_feed_new) simp_all
    then show ?thesis using v h by (simp add: slice_last_def)
  qed
  show ?thesis using r cap feed by blast
qed

lemma reported_single:
  "reported k (maxAgeMinutes, timestamp, dateNow,
       [\<lparr>icao24 = Some k, latitude = JNumber lat, longitude = JNumber lon, lastseen = seen\<rparr>])
     (lon, lat, timestamp)"
  by (simp add: reported_def)

theorem C4_track_cap_witness:
  "wf_tracks []
   \<and> ''A'' \<noteq> []
   \<and> list_all2 (reported ''A'')
        (map (\<lambda>i. (5, int i, int i,
            [\<lparr>icao24 = Some ''A'', latitude = JNumber 0, longitude = JNumber (real i), lastseen = None\<rparr>]))
          [0..<501])
        (map (\<lambda>i. (real i, 0, int i)) [0..<501])
   \<and> successively (\<lambda>p q. moved p (fst q) (fst (snd q))) (map (\<lambda>i. (real i, 0, int i)) [0..<501])
   \<and> length (map (\<lambda>i. (real i, 0::real, int i)) [0..<501]) = 501
   \<and> (\<exists>trs'. run_ticks
          (map (\<lambda>i. (5, int i, int i,
            [\<lparr>icao24 = Some ''A'', latitude = JNumber 0, longitude = JNumber (real i), lastseen = None\<rparr>]))
          [0..<501]) [] = Inr trs'
        \<and> map_of trs' ''A'' = Some (drop 1 (map (\<lambda>i. (real i, 0, int i)) [0..<501]))
        \<and> length (drop 1 (map (\<lambda>i. (real i, 0::real, int i)) [0..<501])) = 500)"
proof -
  let ?ticks = "map (\<lambda>i. (5::real, int i, int i,
            [\<lparr>icao24 = Some ''A'', latitude = JNumber 0, longitude = JNumber (real i), lastseen = None\<rparr>]))
          [0..<501]"
  let ?pts = "map (\<lambda>i. (real i, 0::real, int i)) [0..<501]"
  have wf: "wf_tracks []" by (rule wf_tracks_Nil)
  have b: "\<forall>k buf. map_of ([]::tracks) k = Some buf \<longrightarrow> length buf \<le> MAX_TRACK_POINTS"
    by simp
  have rep: "list_all2 (reported ''A'') ?ticks ?pts"
    by (simp add: list_all2_map1 list_all2_map2 list_all2_same reported_single)
  have apart: "moved (real i, 0, int i) (real j) 0" if "i < j" for i j :: nat
  proof -
    have "real i - real j \<le> - 1" using that by simp
    then have "double (real i - real j) \<le> - 1" by (rule double_le_minus_one)
    then have "TRACK_MIN_DISTANCE_CHANGE < \<bar>double (real i - real j)\<bar>"
      by (simp add: TRACK_MIN_DISTANCE_CHANGE_value)
    then show ?thesis by (simp add: moved_def)
  qed
  have "sorted_wrt (\<lambda>i j. moved (real i, 0, int i) (real j) 0) [0..<501]"
    by (rule sorted_wrt_mono_rel[OF _ sorted_wrt_upt]) (rule apart)
  then have sep: "successively (\<lambda>p q. moved p (fst q) (fst (snd q))) ?pts"
    by (simp add: successively_map successively_if_sorted_wrt)
  have len: "length ?pts = 501" by simp
  from C4_track_cap[OF wf b, of ?ticks "''A''" ?pts] rep sep len
  obtain trs' where "run_ticks ?ticks [] = Inr trs'"
    and "map_of trs' ''A'' = Some (drop (length ?pts - MAX_TRACK_POINTS) ?pts)"
    and "length (drop (length ?pts - MAX_TRACK_POINTS) ?pts) = MAX_TRACK_POINTS"
    by (auto simp: MAX_TRACK_POINTS_def)
  then have "run_ticks ?ticks [] = Inr trs'
        \<and> map_of trs' ''A'' = Some (drop 1 ?pts) \<and> length (drop 1 ?pts) = 500"
    by (simp add: MAX_TRACK_POINTS_def)
  then show ?thesis using wf rep sep len by blast
qed

section \<open>Chronological order\<close>

lemma chronological_mono: "chronological T bo \<Longrightarrow> T \<le> T' \<Longrightarrow> chronological T' bo"
  by (auto simp: chronological_def list_all_iff split: option.splits)

lemma chronological_append:
  assumes "sorted (map (snd \<circ> snd) buf)" and "list_all (\<lambda>p. snd (snd p) \<le> T) buf" and "T \<le> t"
  shows "chronological t (Some (slice_last n (buf @ [(lon, lat, t)])))"
proof -
  have s: "sorted (map (snd \<circ> snd) (buf @ [(lon, lat, t)]))"
    using assms by (auto simp: sorted_append list_all_iff)
  have "sorted (drop (length (buf @ [(lon, lat, t)]) - n) (map (snd \<circ> snd) (buf @ [(lon, lat, t)])))"
    using s by (rule sorted_wrt_drop)
  then have "sorted (map (snd \<circ> snd) (slice_last n (buf @ [(lon, lat, t)])))"
    by (simp only: slice_last_def drop_map)
  moreover have "\<forall>p \<in> set (buf @ [(lon, lat, t)]). snd (snd p) \<le> t"
    using assms by (auto simp: list_all_iff)
  then have "list_all (\<lambda>p. snd (snd p) \<le> t) (slice_last n (buf @ [(lon, lat, t)]))"
    unfolding slice_last_def list_all_iff by (meson in_set_dropD)
  ultimately show ?thesis by (simp add: chronological_def)
qed

lemma chronological_record:
  assumes "chronological T bo" and "T \<le> timestamp"
  shows "chronological timestamp (buffer_after_record timestamp k ac bo)"
proof (cases "buffer_after_record timestamp k ac bo = bo")
  case True
  then show ?thesis using assms by (simp add: chronological_mono)
next
  case False
  then obtain lon lat where v: "longitude ac = JNumber lon" "latitude ac = JNumber lat"
      "icao24 ac = Some k" "k \<noteq> []"
    by (auto simp: buffer_after_record_def split: js_value.splits if_splits)
  show ?thesis
  proof (cases bo)
    case None
    then show ?thesis using v by (simp add: buffer_after_record_def chronological_def)
  next
    case (Some buf)
    then have "buffer_after_record timestamp k ac bo
        = Some (slice_last MAX_TRACK_POINTS (buf @ [(lon, lat, timestamp)]))"
      using False v by (simp add: buffer_after_record_def split: if_splits)
    moreover have "sorted (map (snd \<circ> snd) buf)" "list_all (\<lambda>p. snd (snd p) \<le> T) buf"
      using assms(1) Some by (simp_all add: chronological_def)
    ultimately show ?thesis using assms(2) by (simp add: chronological_append)
  qed
qed

lemma chronological_fold_record:
  assumes "chronological T bo" and "T \<le> timestamp"
  shows "chronological timestamp (fold (buffer_after_record timestamp k) acs bo)"
  using assms
proof (induction acs arbitrary: T bo)
  case Nil
  then show ?case by (simp add: chronological_mono)
next
  case (Cons ac acs)
  have "chronological timestamp (buffer_after_record timestamp k ac bo)"
    using Cons.prems by (rule chronological_record)
  then show ?case using Cons.IH[of timestamp] by simp
qed

lemma chronological_cleanup:
  "chronological T bo \<Longrightarrow> chronological T (buffer_after_cleanup dateNow maxAgeMinutes acs k bo)"
  by (auto simp: chronological_def buffer_after_cleanup_def split: option.splits)

lemma chronological_tick:
  assumes "chronological T bo" and "T \<le> timestamp"
  shows "chronological timestamp (buffer_after_tick k (maxAgeMinutes, timestamp, dateNow, acs) bo)"
  using assms
  by (simp add: buffer_after_tick_def chronological_mono chronological_cleanup
      chronological_fold_record)

lemma chronological_fold_tick:
  assumes "chronological T bo"
    and "sorted (T # map (\<lambda>t. fst (snd t)) ticks)"
  shows "\<exists>T'. chronological T' (fold (buffer_after_tick k) ticks bo)"
  using assms
proof (induction ticks arbitrary: T bo)
  case Nil
  then show ?case by auto
next
  case (Cons t ticks)
  obtain maxAgeMinutes timestamp dateNow acs where t: "t = (maxAgeMinutes, timestamp, dateNow, acs)"
    by (cases t) auto
  from Cons.prems(2) have le: "T \<le> timestamp"
    and s: "sorted (timestamp # map (\<lambda>t. fst (snd t)) ticks)"
    by (simp_all add: t)
  have "chronological timestamp (buffer_after_tick k t bo)"
    unfolding t using Cons.prems(1) le by (rule chronological_tick)
  from Cons.IH[OF this s] show ?case by simp
qed

section \<open>Growth of a buffer in one update\<close>

lemma grown_refl: "grown timestamp bo bo"
proof -
  have "\<exists>n pts. n \<le> length (buf @ pts) \<and> buf = drop n (buf @ pts)
      \<and> (\<forall>p \<in> set pts. snd (snd p) = timestamp)" for buf :: "track_point list"
    by (rule exI[of _ 0], rule exI[of _ "[]"]) simp
  then show ?thesis by (cases bo) (simp_all add: grown_def)
qed

lemma drop_drop_append:
  assumes "n1 \<le> length xs"
  shows "drop n2 (drop n1 xs @ ys) = drop (n2 + n1) (xs @ ys)"
proof -
  have "drop n1 xs @ ys = drop n1 (xs @ ys)" using assms by simp
  then show ?thesis by (simp only: drop_drop)
qed

lemma grown_trans:
  assumes "grown timestamp a b" and "grown timestamp b c"
  shows "grown timestamp a c"
proof (cases c)
  case None
  then show ?thesis using assms by (simp add: grown_def)
next
  case (Some new)
  let ?a = "case a of None \<Rightarrow> [] | Some buf \<Rightarrow> buf"
  let ?b = "case b of None \<Rightarrow> [] | Some buf \<Rightarrow> buf"
  from assms(2) Some obtain n2 p2 where 2: "n2 \<le> length (?b @ p2)" "new = drop n2 (?b @ p2)"
      "\<forall>p \<in> set p2. snd (snd p) = timestamp"
    by (auto simp: grown_def)
  have "\<exists>n1 p1. n1 \<le> length (?a @ p1) \<and> ?b = drop n1 (?a @ p1)
      \<and> (\<forall>p \<in> set p1. snd (snd p) = timestamp)"
  proof (cases b)
    case None
    then have "a = None" using assms(1) by (simp add: grown_def)
    then show ?thesis using None by (intro exI[of _ 0] exI[of _ "[]"]) simp
  next
    case (Some bb)
    then show ?thesis using assms(1) by (simp add: grown_def)
  qed
  then obtain n1 p1 where 1: "n1 \<le> length (?a @ p1)" "?b = drop n1 (?a @ p1)"
      "\<forall>p \<in> set p1. snd (snd p) = timestamp"
    by blast
  have "new = drop n2 (drop n1 (?a @ p1) @ p2)"
    using 1(2) 2(2) by simp
  then have "new = drop (n2 + n1) ((?a @ p1) @ p2)"
    using 1(1) by (simp only: drop_drop_append)
  then have "new = drop (n2 + n1) (?a @ (p1 @ p2))"
    by simp
  moreover have "n2 + n1 \<le> length (?a @ (p1 @ p2))"
    using 1(1,2) 2(1) by simp
  moreover have "\<forall>p \<in> set (p1 @ p2). snd (snd p) = timestamp"
    using 1(3) 2(3) by auto
  ultimately have "\<exists>n pts. n \<le> length (?a @ pts) \<and> new = drop n (?a @ pts)
      \<and> (\<forall>p \<in> set pts. snd (snd p) = timestamp)"
    by blast
  then show ?thesis using Some by (simp add: grown_def)
qed

lemma grown_record: "grown timestamp bo (buffer_after_record timestamp k ac bo)"
proof (cases "buffer_after_record timestamp k ac bo = bo")
  case True
  then show ?thesis by (simp add: grown_refl)
next
  case False
  then obtain lon lat where v: "longitude ac = JNumber lon" "latitude ac = JNumber lat"
      "icao24 ac = Some k" "k \<noteq> []"
    by (auto simp: buffer_after_record_def split: js_value.splits if_splits)
  let ?old = "case bo of None \<Rightarrow> [] | Some buf \<Rightarrow> buf"
  have "\<exists>n. n \<le> length (?old @ [(lon, lat, timestamp)])
      \<and> buffer_after_record timestamp k ac bo = Some (drop n (?old @ [(lon, lat, timestamp)]))"
  proof (cases bo)
    case None
    then show ?thesis using v by (intro exI[of _ 0]) (simp add: buffer_after_record_def)
  next
    case (Some buf)
    then have "buffer_after_record timestamp k ac bo
        = Some (slice_last MAX_TRACK_POINTS (buf @ [(lon, lat, timestamp)]))"
      using False v by (simp add: buffer_after_record_def split: if_splits)
    then show ?thesis using Some
      by (intro exI[of _ "length (buf @ [(lon, lat, timestamp)]) - MAX_TRACK_POINTS"])
        (simp add: slice_last_def)
  qed
  then obtain n where n: "n \<le> length (?old @ [(lon, lat, timestamp)])"
      "buffer_after_record timestamp k ac bo = Some (drop n (?old @ [(lon, lat, timestamp)]))"
    by blast
  have "\<exists>n pts. n \<le> length (?old @ pts) \<and> drop n (?old @ [(lon, lat, timestamp)]) = drop n (?old @ pts)
      \<and> (\<forall>p \<in> set pts. snd (snd p) = timestamp)"
    using n(1) by (intro exI[of _ n] exI[of _ "[(lon, lat, timestamp)]"]) simp
  then show ?thesis
    unfolding grown_def n(2) by (metis n(1) option.distinct(1) option.inject list.set_intros(1) set_ConsD empty_iff empty_set snd_conv)
qed

lemma grown_fold_record: "grown timestamp bo (fold (buffer_after_record timestamp k) acs bo)"
proof (induction acs arbitrary: bo)
  case Nil
  then show ?case by (simp add: grown_refl)
next
  case (Cons ac acs)
  show ?case
    using grown_trans[OF grown_record Cons.IH] by simp
qed

lemma grown_tick:
  assumes "buffer_after_tick k (maxAgeMinutes, timestamp, dateNow, acs) bo = Some new"
  shows "\<exists>n pts. new = drop n ((case bo of None \<Rightarrow> [] | Some buf \<Rightarrow> buf) @ pts)
     \<and> (\<forall>p \<in> set pts. snd (snd p) = timestamp)"
proof -
  have "grown timestamp bo (Some new)"
  proof (cases "acs = []")
    case True
    then show ?thesis using assms by (simp add: buffer_after_tick_def grown_refl)
  next
    case False
    then have "buffer_after_cleanup dateNow maxAgeMinutes acs k
        (fold (buffer_after_record timestamp k) acs bo) = Some new"
      using assms by (simp add: buffer_after_tick_def)
    then have "fold (buffer_after_record timestamp k) acs bo = Some new"
      by (auto simp: buffer_after_cleanup_def split: option.splits if_splits)
    then show ?thesis using grown_fold_record[of timestamp bo k acs] by simp
  qed
  then show ?thesis by (auto simp: grown_def)
qed

text \<open>
  Claim C8: starting from a well-formed track map whose buffers are in the order of capture
  with no capture time after \<open>t0\<close> (the empty map of the hook's initial state is one),
  every sequence of runs of the effect whose clock readings are non-decreasing from
  \<open>t0\<close> on ends normally in a track map whose buffers are in the order of capture: the
  capture time of each point is at least that of the point before. One run turns the
  buffer of an identifier into what remains of the old buffer followed by new points after
  dropping points from the front; the new points carry the clock reading of the run as
  capture time, whatever the \<^verbatim>\<open>lastseen\<close> of the records.
\<close>

theorem C8_chronological:
  assumes "wf_tracks trs"
    and "\<forall>k buf. map_of trs k = Some buf \<longrightarrow>
           sorted (map (\<lambda>p. snd (snd p)) buf) \<and> (\<forall>p \<in> set buf. snd (snd p) \<le> t0)"
    and "sorted (t0 # map (\<lambda>t. fst (snd t)) ticks)"
  shows "(\<exists>trs'. run_ticks ticks trs = Inr trs'
           \<and> (\<forall>k buf. map_of trs' k = Some buf \<longrightarrow> sorted (map (\<lambda>p. snd (snd p)) buf)))
     \<and> (\<exists>trs1. useAircraftTracks maxAgeMinutes timestamp dateNow acs trs = Inr trs1
           \<and> (\<forall>k buf1. map_of trs1 k = Some buf1 \<longrightarrow>
                 (\<exists>n pts. buf1 = drop n ((case map_of trs k of None \<Rightarrow> [] | Some buf \<Rightarrow> buf) @ pts)
                    \<and> (\<forall>p \<in> set pts. snd (snd p) = timestamp))))"
proof (intro conjI)
  from run_ticks_view[OF assms(1), of ticks]
  obtain trs' where r: "run_ticks ticks trs = Inr trs'"
    and v: "\<forall>k. map_of trs' k = fold (buffer_after_tick k) ticks (map_of trs k)"
    by blast
  have "sorted (map (\<lambda>p. snd (snd p)) buf)" if b: "map_of trs' k = Some buf" for k buf
  proof -
    have "chronological t0 (map_of trs k)"
      using assms(2) by (auto simp: chronological_def list_all_iff comp_def split: option.splits)
    from chronological_fold_tick[OF this assms(3), of k]
    obtain T' where "chronological T' (map_of trs' k)"
      using v by auto
    then show ?thesis using b by (simp add: chronological_def comp_def)
  qed
  then show "\<exists>trs'. run_ticks ticks trs = Inr trs'
           \<and> (\<forall>k buf. map_of trs' k = Some buf \<longrightarrow> sorted (map (\<lambda>p. snd (snd p)) buf))"
    using r by blast
next
  from useAircraftTracks_view[OF assms(1), of maxAgeMinutes timestamp dateNow acs]
  obtain trs1 where r: "useAircraftTracks maxAgeMinutes timestamp dateNow acs trs = Inr trs1"
    and v: "\<forall>k. map_of trs1 k =
                 buffer_after_tick k (maxAgeMinutes, timestamp, dateNow, acs) (map_of trs k)"
    by blast
  have "\<exists>n pts. buf1 = drop n ((case map_of trs k of None \<Rightarrow> [] | Some buf \<Rightarrow> buf) @ pts)
                    \<and> (\<forall>p \<in> set pts. snd (snd p) = timestamp)"
    if "map_of trs1 k = Some buf1" for k buf1
    using that v by (intro grown_tick[of k maxAgeMinutes timestamp dateNow acs]) simp
  then show "\<exists>trs1. useAircraftTracks maxAgeMinutes timestamp dateNow acs trs = Inr trs1
           \<and> (\<forall>k buf1. map_of trs1 k = Some buf1 \<longrightarrow>
                 (\<exists>n pts. buf1 = drop n ((case map_of trs k of None \<Rightarrow> [] | Some buf \<Rightarrow> buf) @ pts)
                    \<and> (\<forall>p \<in> set pts. snd (snd p) = timestamp)))"
    using r by blast
qed

theorem C8_chronological_witness:
  "wf_tracks [(''A'', [(20, 10, 1000000)])]
   \<and> sorted (1000000 # map (\<lambda>t. fst (snd t))
        [(5::real, 1060000::int, 1060000::int,
          [\<lparr>icao24 = Some ''A'', latitude = JNumber (double 10.0005), longitude = JNumber (double 20.0005), lastseen = Some 1060\<rparr>]),
         (5, 1120000, 1120000,
          [\<lparr>icao24 = Some ''A'', latitude = JNumber (double 10.01), longitude = JNumber (double 20.01), lastseen = Some 3\<rparr>])])
   \<and> run_ticks
        [(5, 1060000, 1060000,
          [\<lparr>icao24 = Some ''A'', latitude = JNumber (double 10.0005), longitude = JNumber (double 20.0005), lastseen = Some 1060\<rparr>]),
         (5, 1120000, 1120000,
          [\<lparr>icao24 = Some ''A'', latitude = JNumber (double 10.01), longitude = JNumber (double 20.01), lastseen = Some 3\<rparr>])]
        [(''A'', [(20, 10, 1000000)])]
      = Inr [(''A'', [(20, 10, 1000000), (double 20.01, double 10.01, 1120000)])]
   \<and> (\<exists>trs'. run_ticks
          [(5, 1060000, 1060000,
            [\<lparr>icao24 = Some ''A'', latitude = JNumber (double 10.0005), longitude = JNumber (double 20.0005), lastseen = Some 1060\<rparr>]),
           (5, 1120000, 1120000,
            [\<lparr>icao24 = Some ''A'', latitude = JNumber (double 10.01), longitude = JNumber (double 20.01), lastseen = Some 3\<rparr>])]
          [(''A'', [(20, 10, 1000000)])] = Inr trs'
        \<and> (\<forall>k buf. map_of trs' k = Some buf \<longrightarrow> sorted (map (\<lambda>p. snd (snd p)) buf)))
   \<and> (\<exists>trs1. useAircraftTracks 5 1120000 1120000
          [\<lparr>icao24 = Some ''A'', latitude = JNumber (double 10.01), longitude = JNumber (double 20.01), lastseen = Some 3\<rparr>]
          [(''A'', [(20, 10, 1000000)])] = Inr trs1
        \<and> (\<forall>k buf1. map_of trs1 k = Some buf1 \<longrightarrow>
              (\<exists>n pts. buf1 = drop n ((case map_of [(''A'', [(20, 10, 1000000)])] k of
                                         None \<Rightarrow> [] | Some buf \<Rightarrow> buf) @ pts)
                 \<and> (\<forall>p \<in> set pts. snd (snd p) = 1120000))))"
proof -
  let ?trs = "[(''A'', [(20::real, 10::real, 1000000::int)])]"
  let ?ticks = "[(5::real, 1060000::int, 1060000::int,
          [\<lparr>icao24 = Some ''A'', latitude = JNumber (double 10.0005), longitude = JNumber (double 20.0005), lastseen = Some 1060\<rparr>]),
         (5, 1120000, 1120000,
          [\<lparr>icao24 = Some ''A'', latitude = JNumber (double 10.01), longitude = JNumber (double 20.01), lastseen = Some 3\<rparr>])]"
  have wf: "wf_tracks ?trs" by (simp add: wf_tracks_def)
  have ch: "\<forall>k buf. map_of ?trs k = Some buf \<longrightarrow>
           sorted (map (\<lambda>p. snd (snd p)) buf) \<and> (\<forall>p \<in> set buf. snd (snd p) \<le> 1000000)"
    by auto
  have so: "sorted (1000000 # map (\<lambda>t. fst (snd t)) ?ticks)" by simp
  have still: "\<not> moved (20, 10, 1000000) (double 20.0005) (double 10.0005)"
    using near_lon near_lat by (simp add: moved_def)
  have "double 20.01 = 5632314283980227 / 281474976710656"
    by (simp add: double_eval)
  then have "TRACK_MIN_DISTANCE_CHANGE < \<bar>double (20 - double 20.01)\<bar>"
    unfolding TRACK_MIN_DISTANCE_CHANGE_value by (simp add: double_eval)
  then have away: "moved (20, 10, 1000000) (double 20.01) (double 10.01)"
    by (simp add: moved_def)
  have ev: "run_ticks ?ticks ?trs = Inr [(''A'', [(20, 10, 1000000), (double 20.01, double 10.01, 1120000)])]"
    using still away by (simp add: tracks_eval)
  show ?thesis
    using wf so ev
      C8_chronological[OF wf ch so, of 5 1120000 1120000
        "[\<lparr>icao24 = Some ''A'', latitude = JNumber (double 10.01), longitude = JNumber (double 20.01), lastseen = Some 3\<rparr>]"]
    by blast
qed

end
